theory Spec2Isabelle
  imports Main "HOL-Library.AList" "HOL-Library.Multiset"
begin

section \<open>Python values, dictionaries and exceptions\<close>

text \<open>
  The trace is JSON, so an attribute value is one of the values \<open>json.loads\<close> produces.
  A Python \<open>dict\<close> keeps its insertion order, so it is an association list with distinct
  keys: \<open>map_of\<close> reads it and \<open>AList.update\<close> writes it (in place for a key already
  there, at the end for a new key, as Python does).  Numbers are Python ints; a timestamp
  is a whole number of seconds (a float timestamp is outside this model).
\<close>

type_synonym key = string

datatype pyval =
    VNone
  | VBool bool
  | VNum int
  | VStr string
  | VList "pyval list"
  | VDict "(string \<times> pyval) list"

type_synonym pydict = "(string \<times> pyval) list"

datatype error =
    AttributeError string
  | KeyError string
  | TypeError
  | NameError string
  | IndexError
  | ZeroDivisionError
  | RuntimeError
  | NetworkXError
  | NetworkXUnfeasible
  | NodeNotFound key
  | ValueError
  | OverflowError
  | OSError
  | TargetNotFoundError string
  | DepChainNotFoundError string "key list"

text \<open>
  \<open>datetime.datetime.fromtimestamp\<close> belongs to the standard library, and its result
  depends on the machine: it is the naive local date and time, so the offset of the local
  time zone at that instant is part of it (two timestamps on both sides of a change of
  that offset are not as far apart as their difference in seconds), and it raises
  \<open>ValueError\<close>, \<open>OverflowError\<close> or \<open>OSError\<close> for a timestamp whose local year is
  not between 1 and 9999 or that the C library cannot convert.  The conversion of a whole
  number of seconds is therefore a parameter \<open>tz\<close> of everything that reads a time:
  \<open>tz t\<close> is the local date and time of the timestamp \<open>t\<close>, in seconds from the naive
  1970-01-01 00:00:00, or the exception raised.  No property of \<open>tz\<close> is assumed.  A
  datetime is kept in microseconds.  \<open>bool\<close> is a subclass of \<open>int\<close>; anything else that
  is not a number raises \<open>TypeError\<close>.
\<close>

type_synonym localtime = "int \<Rightarrow> error + int"

fun fromtimestamp :: "localtime \<Rightarrow> pyval \<Rightarrow> error + int" where
  "fromtimestamp tz (VNum n) = (case tz n of Inl e \<Rightarrow> Inl e | Inr s \<Rightarrow> Inr (s * 1000000))"
| "fromtimestamp tz (VBool b) =
     (case tz (if b then 1 else 0) of Inl e \<Rightarrow> Inl e | Inr s \<Rightarrow> Inr (s * 1000000))"
| "fromtimestamp tz v = Inl TypeError"

text \<open>
  An interpreter whose local time is UTC, for the examples.  A timestamp of the years 1
  to 9999 is its own local time.  The conversion also reads the local time one day
  earlier, to find a repeated hour, so the first day of the year 1 is out of range as
  well.  Out of range the call raises \<open>ValueError\<close> (and, much further out,
  \<open>OverflowError\<close> or \<open>OSError\<close> where the C library gives up, which this definition
  does not tell apart from \<open>ValueError\<close>).
\<close>

definition utc :: localtime where
  "utc t = (if - 62135510400 \<le> t \<and> t \<le> 253402300799 then Inr t else Inl ValueError)"

section \<open>node.py: Node and TargetNode\<close>

text \<open>
  A node is its attribute dict and the memo fields named in \<open>__cached__\<close>.  The memo of
  \<open>start\<close>, \<open>end\<close> and \<open>recipe\<close> holds \<open>None\<close> (not computed), \<open>False\<close> (attribute
  missing or \<open>None\<close>) or a datetime: \<open>None\<close>, \<open>Some None\<close> and \<open>Some (Some t)\<close>.  The
  memo of a duration holds \<open>None\<close> or a timedelta in microseconds.
\<close>

record node =
  attrib :: pydict
  cached_elapsed :: "int option"
  cached_start :: "int option option"
  cached_end :: "int option option"
  cached_recipe :: "int option option"
  cached_elapsed_recipe :: "int option"

definition clear :: "node \<Rightarrow> node" where
  "clear n = n\<lparr>cached_elapsed := None, cached_start := None, cached_end := None,
                cached_recipe := None, cached_elapsed_recipe := None\<rparr>"

definition new_node :: node where
  "new_node = clear \<lparr>attrib = [], cached_elapsed = None, cached_start = None,
                      cached_end = None, cached_recipe = None, cached_elapsed_recipe = None\<rparr>"

text \<open>\<open>self.attrib.get(name) is not None\<close> followed by \<open>fromtimestamp(self.attrib[name])\<close>.\<close>

definition timestamp_attr :: "localtime \<Rightarrow> pydict \<Rightarrow> string \<Rightarrow> error + int option" where
  "timestamp_attr tz a name =
     (case map_of a name of
        None \<Rightarrow> Inr None
      | Some VNone \<Rightarrow> Inr None
      | Some v \<Rightarrow> (case fromtimestamp tz v of Inl e \<Rightarrow> Inl e | Inr t \<Rightarrow> Inr (Some t)))"

definition start :: "localtime \<Rightarrow> node \<Rightarrow> (error + int option) \<times> node" where
  "start tz n =
     (case cached_start n of
        Some r \<Rightarrow> (Inr r, n)
      | None \<Rightarrow>
          (case timestamp_attr tz (attrib n) ''start'' of
             Inl e \<Rightarrow> (Inl e, n)
           | Inr r \<Rightarrow> (Inr r, n\<lparr>cached_start := Some r\<rparr>)))"

definition end' :: "localtime \<Rightarrow> node \<Rightarrow> (error + int option) \<times> node" where
  "end' tz n =
     (case cached_end n of
        Some r \<Rightarrow> (Inr r, n)
      | None \<Rightarrow>
          (case timestamp_attr tz (attrib n) ''end'' of
             Inl e \<Rightarrow> (Inl e, n)
           | Inr r \<Rightarrow> (Inr r, n\<lparr>cached_end := Some r\<rparr>)))"

definition recipe :: "localtime \<Rightarrow> node \<Rightarrow> (error + int option) \<times> node" where
  "recipe tz n =
     (case cached_recipe n of
        Some r \<Rightarrow> (Inr r, n)
      | None \<Rightarrow>
          (case timestamp_attr tz (attrib n) ''recipe'' of
             Inl e \<Rightarrow> (Inl e, n)
           | Inr r \<Rightarrow> (Inr r, n\<lparr>cached_recipe := Some r\<rparr>)))"

text \<open>\<open>if not self.end or not self.start\<close>: a datetime is always true, \<open>False\<close> is not;
  \<open>or\<close> reads \<open>start\<close> only when \<open>end\<close> is there.\<close>

definition elapsed :: "localtime \<Rightarrow> node \<Rightarrow> (error + int) \<times> node" where
  "elapsed tz n =
     (case cached_elapsed n of
        Some d \<Rightarrow> (Inr d, n)
      | None \<Rightarrow>
          (case end' tz n of
             (Inl e, n1) \<Rightarrow> (Inl e, n1)
           | (Inr None, n1) \<Rightarrow> (Inr 0, n1\<lparr>cached_elapsed := Some 0\<rparr>)
           | (Inr (Some e), n1) \<Rightarrow>
               (case start tz n1 of
                  (Inl x, n2) \<Rightarrow> (Inl x, n2)
                | (Inr None, n2) \<Rightarrow> (Inr 0, n2\<lparr>cached_elapsed := Some 0\<rparr>)
                | (Inr (Some s), n2) \<Rightarrow> (Inr (e - s), n2\<lparr>cached_elapsed := Some (e - s)\<rparr>))))"

definition elapsed_recipe :: "localtime \<Rightarrow> node \<Rightarrow> (error + int) \<times> node" where
  "elapsed_recipe tz n =
     (case cached_elapsed_recipe n of
        Some d \<Rightarrow> (Inr d, n)
      | None \<Rightarrow>
          (case end' tz n of
             (Inl e, n1) \<Rightarrow> (Inl e, n1)
           | (Inr None, n1) \<Rightarrow> (Inr 0, n1\<lparr>cached_elapsed_recipe := Some 0\<rparr>)
           | (Inr (Some e), n1) \<Rightarrow>
               (case recipe tz n1 of
                  (Inl x, n2) \<Rightarrow> (Inl x, n2)
                | (Inr None, n2) \<Rightarrow> (Inr 0, n2\<lparr>cached_elapsed_recipe := Some 0\<rparr>)
                | (Inr (Some r), n2) \<Rightarrow>
                    (Inr (e - r), n2\<lparr>cached_elapsed_recipe := Some (e - r)\<rparr>))))"

text \<open>\<open>Node.__getattr__\<close>, reached for a name that is no property of the class.\<close>

definition getattr :: "node \<Rightarrow> string \<Rightarrow> error + pyval" where
  "getattr n name =
     (case map_of (attrib n) name of
        Some v \<Rightarrow> Inr v
      | None \<Rightarrow> Inl (AttributeError name))"

text \<open>\<open>Node.__setitem__\<close>: clear the memo, then write the attribute.\<close>

definition setitem :: "node \<Rightarrow> string \<Rightarrow> pyval \<Rightarrow> node" where
  "setitem n k v = (clear n)\<lparr>attrib := AList.update k v (attrib (clear n))\<rparr>"

section \<open>node.py: NodeInfo over a target node\<close>

text \<open>
  \<open>NodeInfo.elapsed_recipe\<close> reads \<open>self._node.recursive\<close>, which is \<open>Node.__getattr__\<close>
  and raises \<open>AttributeError\<close> when the attribute is missing.  An \<open>AttributeError\<close> that
  leaves a property makes Python call \<open>NodeInfo.__getattr__('elapsed_recipe')\<close>, which is
  \<open>getattr(self._node, 'elapsed_recipe')\<close>: the raw property.  \<open>is True\<close> holds for the
  object \<open>True\<close> alone.
\<close>

definition info_elapsed_recipe :: "localtime \<Rightarrow> node \<Rightarrow> (error + int) \<times> node" where
  "info_elapsed_recipe tz n =
     (case getattr n ''recursive'' of
        Inl (AttributeError x) \<Rightarrow> elapsed_recipe tz n
      | Inl e \<Rightarrow> (Inl e, n)
      | Inr v \<Rightarrow> if v = VBool True then (Inr 0, n) else elapsed_recipe tz n)"

section \<open>networkx: the part of \<open>DiGraph\<close> the program uses\<close>

text \<open>
  \<open>DiGraph\<close> keeps three insertion-ordered dicts with the same keys in the same order:
  \<open>_node\<close> (key to attribute dict), \<open>_succ\<close> (key to the dict of successors) and
  \<open>_pred\<close>, the mirror of \<open>_succ\<close>.  One list holds them: an entry is the key, the
  attribute dict of the node, and the successor keys in the order the edges were added.
  The node memo is not stored: see \<open>elapsed_of\<close> below.
\<close>

record nxgraph =
  entries :: "(key \<times> pydict \<times> key list) list"

definition has_node :: "'a nxgraph_scheme \<Rightarrow> key \<Rightarrow> bool" where
  "has_node G k = (map_of (entries G) k \<noteq> None)"

definition nodes :: "'a nxgraph_scheme \<Rightarrow> key list" where
  "nodes G = map fst (entries G)"

text \<open>\<open>G.nodes[k]\<close>\<close>

definition node_attrs :: "'a nxgraph_scheme \<Rightarrow> key \<Rightarrow> error + pydict" where
  "node_attrs G k = (case map_of (entries G) k of None \<Rightarrow> Inl (KeyError k) | Some e \<Rightarrow> Inr (fst e))"

text \<open>\<open>G[k]\<close> for a node of the graph; \<open>G.successors(k)\<close> raises \<open>NetworkXError\<close> otherwise.\<close>

definition adj :: "'a nxgraph_scheme \<Rightarrow> key \<Rightarrow> key list" where
  "adj G k = (case map_of (entries G) k of None \<Rightarrow> [] | Some e \<Rightarrow> snd e)"

definition successors :: "'a nxgraph_scheme \<Rightarrow> key \<Rightarrow> error + key list" where
  "successors G k = (case map_of (entries G) k of None \<Rightarrow> Inl NetworkXError | Some e \<Rightarrow> Inr (snd e))"

text \<open>\<open>G.edges\<close>: for every node, in order, its successors in order.\<close>

definition edges :: "'a nxgraph_scheme \<Rightarrow> (key \<times> key) list" where
  "edges G = concat (map (\<lambda>u. map (\<lambda>v. (u, v)) (adj G u)) (nodes G))"

text \<open>\<open>MutableMapping.update\<close>: \<open>self[k] = v\<close> for each item, in order.\<close>

definition dict_update :: "pydict \<Rightarrow> pydict \<Rightarrow> pydict" where
  "dict_update a other = foldl (\<lambda>d (k, v). AList.update k v d) a other"

text \<open>The first half of \<open>add_node\<close> and of \<open>add_edge\<close>: a key that is not in \<open>_succ\<close> gets
  an empty successor dict and a fresh attribute dict from the factory.\<close>

definition touch :: "key \<Rightarrow> 'a nxgraph_scheme \<Rightarrow> 'a nxgraph_scheme" where
  "touch k G = (if has_node G k then G else G\<lparr>entries := entries G @ [(k, [], [])]\<rparr>)"

definition add_node :: "key \<Rightarrow> pydict \<Rightarrow> 'a nxgraph_scheme \<Rightarrow> 'a nxgraph_scheme" where
  "add_node k attr G =
     (touch k G)\<lparr>entries := AList.map_entry k (\<lambda>(a, vs). (dict_update a attr, vs)) (entries (touch k G))\<rparr>"

definition add_edge :: "key \<Rightarrow> key \<Rightarrow> 'a nxgraph_scheme \<Rightarrow> 'a nxgraph_scheme" where
  "add_edge u v G =
     (touch v (touch u G))\<lparr>entries :=
        AList.map_entry u (\<lambda>(a, vs). (a, if v \<in> set vs then vs else vs @ [v]))
          (entries (touch v (touch u G)))\<rparr>"

text \<open>\<open>G.nodes[k][name] = value\<close> and \<open>G.nodes[k].update(other)\<close> on a node of the graph.\<close>

definition update_node :: "key \<Rightarrow> pydict \<Rightarrow> 'a nxgraph_scheme \<Rightarrow> error + 'a nxgraph_scheme" where
  "update_node k other G =
     (if has_node G k
      then Inr (G\<lparr>entries := AList.map_entry k (\<lambda>(a, vs). (dict_update a other, vs)) (entries G)\<rparr>)
      else Inl (KeyError k))"

section \<open>graphs.py: MakeGrindDiGraph\<close>

datatype node_kind = TargetNode | BuildNode

text \<open>The class attribute \<open>node_attr_dict_factory\<close> and the two memo fields of
  \<open>__cached__\<close>.  The transitive reduction is a plain \<open>nx.DiGraph\<close>.\<close>

record makegrind_digraph = nxgraph +
  node_attr_dict_factory :: node_kind
  cached_reduced :: "nxgraph option"
  cached_entry :: "key option"

text \<open>\<open>MakeGrindDiGraph.clear\<close>, called by \<open>__init__\<close> and nowhere else.\<close>

definition graph_clear :: "'a makegrind_digraph_scheme \<Rightarrow> 'a makegrind_digraph_scheme" where
  "graph_clear G = G\<lparr>cached_reduced := None, cached_entry := None\<rparr>"

definition TargetDiGraph :: makegrind_digraph where
  "TargetDiGraph = graph_clear \<lparr>entries = [], node_attr_dict_factory = TargetNode,
                                 cached_reduced = None, cached_entry = None\<rparr>"

subsection \<open>Node keys\<close>

text \<open>\<open>str.format\<close> of a value.  The \<open>repr\<close> of a string inside a list or dict is exact
  for strings that need no escaping.\<close>

definition digit :: "nat \<Rightarrow> char" where
  "digit d = ''0123456789'' ! d"

fun decimal :: "nat \<Rightarrow> string" where
  "decimal n = (if 10 \<le> n then decimal (n div 10) @ [digit (n mod 10)] else [digit n])"

declare decimal.simps [simp del]

text \<open>\<open>str\<close> of a Python int.\<close>

definition str_int :: "int \<Rightarrow> string" where
  "str_int i = (if 0 \<le> i then decimal (nat i) else CHR ''-'' # decimal (nat (- i)))"

fun join :: "string \<Rightarrow> string list \<Rightarrow> string" where
  "join sep [] = []"
| "join sep [x] = x"
| "join sep (x # y # ys) = x @ sep @ join sep (y # ys)"

fun py_repr :: "pyval \<Rightarrow> string" where
  "py_repr VNone = ''None''"
| "py_repr (VBool b) = (if b then ''True'' else ''False'')"
| "py_repr (VNum i) = str_int i"
| "py_repr (VStr s) = [CHR 0x27] @ s @ [CHR 0x27]"
| "py_repr (VList xs) = ''['' @ join '', '' (map py_repr xs) @ '']''"
| "py_repr (VDict kvs) =
     ''{'' @ join '', '' (map (\<lambda>kv. [CHR 0x27] @ fst kv @ [CHR 0x27] @ '': '' @ py_repr (snd kv)) kvs) @ ''}''"

definition py_str :: "pyval \<Rightarrow> string" where
  "py_str v = (case v of VStr s \<Rightarrow> s | _ \<Rightarrow> py_repr v)"

text \<open>\<open>target[name]\<close> on a dict.\<close>

definition getitem :: "pydict \<Rightarrow> string \<Rightarrow> error + pyval" where
  "getitem d name = (case map_of d name of None \<Rightarrow> Inl (KeyError name) | Some v \<Rightarrow> Inr v)"

text \<open>\<open>TargetNode.nodekey\<close> is \<open>"{}:{}".format(target["pid"], target["name"])\<close> and
  \<open>BuildNode.nodekey\<close> is \<open>"{}".format(target["pid"])\<close>.\<close>

fun nodekey :: "node_kind \<Rightarrow> pydict \<Rightarrow> error + key" where
  "nodekey TargetNode target =
     (case getitem target ''pid'' of
        Inl e \<Rightarrow> Inl e
      | Inr p \<Rightarrow> (case getitem target ''name'' of
                   Inl e \<Rightarrow> Inl e
                 | Inr n \<Rightarrow> Inr (py_str p @ '':'' @ py_str n)))"
| "nodekey BuildNode target =
     (case getitem target ''pid'' of
        Inl e \<Rightarrow> Inl e
      | Inr p \<Rightarrow> Inr (py_str p))"

text \<open>\<open>Node.valid\<close>: \<open>hasattr\<close> of every required name, none of which is a property of the
  class, so each is \<open>Node.__getattr__\<close>: the name is in the attribute dict.\<close>

fun required :: "node_kind \<Rightarrow> string list" where
  "required TargetNode = [''name'', ''pid'']"
| "required BuildNode = [''pid'', ''directory'']"

definition valid :: "node_kind \<Rightarrow> pydict \<Rightarrow> bool" where
  "valid kind a = list_all (\<lambda>prop. map_of a prop \<noteq> None) (required kind)"

section \<open>graphs.py: TargetDiGraph.add_target\<close>

text \<open>Iterating a value, as a \<open>for\<close> loop or a comprehension does.\<close>

fun py_iter :: "pyval \<Rightarrow> error + pyval list" where
  "py_iter (VList xs) = Inr xs"
| "py_iter (VStr s) = Inr (map (\<lambda>c. VStr [c]) s)"
| "py_iter (VDict kvs) = Inr (map (\<lambda>kv. VStr (fst kv)) kvs)"
| "py_iter v = Inl TypeError"

text \<open>The loop \<open>for dep in [...]: self.add_edge(key, self.nodekey(dep))\<close>; the key of
  \<open>{"pid": pid, "name": x}\<close> never fails.\<close>

definition dep_key :: "pyval \<Rightarrow> pyval \<Rightarrow> key" where
  "dep_key pid x = py_str pid @ '':'' @ py_str x"

definition add_dep_edges :: "key \<Rightarrow> key list \<Rightarrow> 'a nxgraph_scheme \<Rightarrow> 'a nxgraph_scheme" where
  "add_dep_edges k deps G = foldl (\<lambda>g d. add_edge k d g) G deps"

definition add_target :: "pydict \<Rightarrow> 'a makegrind_digraph_scheme \<Rightarrow> error + 'a makegrind_digraph_scheme" where
  "add_target target G =
     (case nodekey (node_attr_dict_factory G) target of
        Inl e \<Rightarrow> Inl e
      | Inr k \<Rightarrow>
          (let depends = (case map_of target ''depends'' of Some d \<Rightarrow> d | None \<Rightarrow> VList []);
               target' = AList.delete ''depends'' target;
               G1 = (if has_node G k then G else add_node k [] G)
           in case update_node k target' G1 of
                Inl e \<Rightarrow> Inl e
              | Inr G2 \<Rightarrow>
                  (case py_iter depends of
                     Inl e \<Rightarrow> Inl e
                   | Inr [] \<Rightarrow> Inr G2
                   | Inr ds \<Rightarrow>
                       (case getitem target' ''pid'' of
                          Inl e \<Rightarrow> Inl e
                        | Inr pid \<Rightarrow> Inr (add_dep_edges k (map (dep_key pid) ds) G2)))))"

section \<open>node.py: the derived values without the memo\<close>

text \<open>
  What \<open>elapsed\<close> and \<open>elapsed_recipe\<close> compute from the attribute dict.  A node whose
  memo is coherent with its attributes reads exactly these values (lemmas
  \<open>elapsed_coherent\<close> and \<open>elapsed_recipe_coherent\<close> below), and \<open>__setitem__\<close> is the
  only writer, so the graph algorithms read a node of the graph through them.
\<close>

definition elapsed_of :: "localtime \<Rightarrow> pydict \<Rightarrow> error + int" where
  "elapsed_of tz a =
     (case timestamp_attr tz a ''end'' of
        Inl e \<Rightarrow> Inl e
      | Inr None \<Rightarrow> Inr 0
      | Inr (Some e) \<Rightarrow>
          (case timestamp_attr tz a ''start'' of
             Inl x \<Rightarrow> Inl x
           | Inr None \<Rightarrow> Inr 0
           | Inr (Some s) \<Rightarrow> Inr (e - s)))"

definition elapsed_recipe_of :: "localtime \<Rightarrow> pydict \<Rightarrow> error + int" where
  "elapsed_recipe_of tz a =
     (case timestamp_attr tz a ''end'' of
        Inl e \<Rightarrow> Inl e
      | Inr None \<Rightarrow> Inr 0
      | Inr (Some e) \<Rightarrow>
          (case timestamp_attr tz a ''recipe'' of
             Inl x \<Rightarrow> Inl x
           | Inr None \<Rightarrow> Inr 0
           | Inr (Some r) \<Rightarrow> Inr (e - r)))"

definition coherent :: "localtime \<Rightarrow> node \<Rightarrow> bool" where
  "coherent tz n =
     ((case cached_start n of None \<Rightarrow> True | Some r \<Rightarrow> timestamp_attr tz (attrib n) ''start'' = Inr r)
    \<and> (case cached_end n of None \<Rightarrow> True | Some r \<Rightarrow> timestamp_attr tz (attrib n) ''end'' = Inr r)
    \<and> (case cached_recipe n of None \<Rightarrow> True | Some r \<Rightarrow> timestamp_attr tz (attrib n) ''recipe'' = Inr r)
    \<and> (case cached_elapsed n of None \<Rightarrow> True | Some d \<Rightarrow> elapsed_of tz (attrib n) = Inr d)
    \<and> (case cached_elapsed_recipe n of None \<Rightarrow> True | Some d \<Rightarrow> elapsed_recipe_of tz (attrib n) = Inr d))"

text \<open>\<open>NodeInfo.elapsed_recipe\<close> on a node of the graph, without the memo.\<close>

definition info_elapsed_recipe_of :: "localtime \<Rightarrow> pydict \<Rightarrow> error + int" where
  "info_elapsed_recipe_of tz a =
     (if map_of a ''recursive'' = Some (VBool True) then Inr 0 else elapsed_recipe_of tz a)"

section \<open>networkx: topological order, acyclicity, transitive reduction\<close>

text \<open>\<open>G.in_degree\<close>: the size of \<open>_pred[v]\<close>, the number of nodes with an edge to \<open>v\<close>.\<close>

definition in_degree :: "'a nxgraph_scheme \<Rightarrow> key \<Rightarrow> int" where
  "in_degree G v = int (length (filter (\<lambda>u. v \<in> set (adj G u)) (nodes G)))"

text \<open>
  \<open>topological_generations\<close>.  For every child of a node of the current generation:
  \<open>indegree_map[child] -= 1\<close> (a \<open>KeyError\<close> becomes \<open>RuntimeError\<close>), and a child whose
  count reaches zero is appended to the next generation and deleted from the map.
\<close>

fun visit_children :: "key list \<Rightarrow> (key \<times> int) list \<Rightarrow> key list \<Rightarrow> error + ((key \<times> int) list \<times> key list)" where
  "visit_children [] imap zero = Inr (imap, zero)"
| "visit_children (c # cs) imap zero =
     (case map_of imap c of
        None \<Rightarrow> Inl RuntimeError
      | Some d \<Rightarrow>
          if d - 1 = 0 then visit_children cs (AList.delete c imap) (zero @ [c])
          else visit_children cs (AList.update c (d - 1) imap) zero)"

fun visit_generation :: "'a nxgraph_scheme \<Rightarrow> key list \<Rightarrow> (key \<times> int) list \<Rightarrow> key list
    \<Rightarrow> error + ((key \<times> int) list \<times> key list)" where
  "visit_generation G [] imap zero = Inr (imap, zero)"
| "visit_generation G (n # ns) imap zero =
     (case visit_children (adj G n) imap zero of
        Inl e \<Rightarrow> Inl e
      | Inr (imap', zero') \<Rightarrow> visit_generation G ns imap' zero')"

lemma delete_length_less: "map_of imap c = Some d \<Longrightarrow> length (AList.delete c imap) < length imap"
  unfolding AList.delete_eq
  by (rule length_filter_less [where x = "(c, d)"]) (auto dest: map_of_SomeD)

lemma update_length_same: "map_of imap c = Some d \<Longrightarrow> length (AList.update c v imap) = length imap"
  by (induction imap) (auto split: if_splits)

lemma visit_children_length:
  "visit_children cs imap zero = Inr (imap', zero')
     \<Longrightarrow> length imap' + length zero' \<le> length imap + length zero"
proof (induction cs arbitrary: imap zero)
  case Nil
  then show ?case by simp
next
  case (Cons c cs)
  then obtain d where d: "map_of imap c = Some d"
    by (auto split: option.splits)
  show ?case
  proof (cases "d - 1 = 0")
    case True
    with Cons.prems d have "visit_children cs (AList.delete c imap) (zero @ [c]) = Inr (imap', zero')"
      by simp
    from Cons.IH [OF this] delete_length_less [OF d] show ?thesis by simp
  next
    case False
    with Cons.prems d have "visit_children cs (AList.update c (d - 1) imap) zero = Inr (imap', zero')"
      by simp
    from Cons.IH [OF this] update_length_same [OF d] show ?thesis by simp
  qed
qed

lemma visit_generation_length:
  "visit_generation G ns imap zero = Inr (imap', zero')
     \<Longrightarrow> length imap' + length zero' \<le> length imap + length zero"
proof (induction ns arbitrary: imap zero)
  case Nil
  then show ?case by simp
next
  case (Cons n ns)
  then obtain i1 z1 where v: "visit_children (adj G n) imap zero = Inr (i1, z1)"
    and r: "visit_generation G ns i1 z1 = Inr (imap', zero')"
    by (auto split: sum.splits)
  from Cons.IH [OF r] visit_children_length [OF v] show ?case by simp
qed

text \<open>The \<open>while zero_indegree\<close> loop.  The generator yields a generation after its
  children are counted, and raises \<open>NetworkXUnfeasible\<close> at the end when the map is not
  empty: the result is the nodes yielded and the exception that ends the iteration, if any.\<close>

function topological_generations_loop ::
  "'a nxgraph_scheme \<Rightarrow> (key \<times> int) list \<Rightarrow> key list \<Rightarrow> key list \<times> error option" where
  "topological_generations_loop G imap zero =
     (if zero = [] then ([], if imap = [] then None else Some NetworkXUnfeasible)
      else case visit_generation G zero imap [] of
             Inl e \<Rightarrow> ([], Some e)
           | Inr (imap', zero') \<Rightarrow>
               (case topological_generations_loop G imap' zero' of
                  (order, err) \<Rightarrow> (zero @ order, err)))"
  by pat_completeness auto
termination
proof (relation "measure (\<lambda>(G, imap, zero). 2 * length imap + (if zero = [] then 0 else 1))")
  show "wf (measure (\<lambda>(G, imap, zero). 2 * length imap + (if zero = [] then 0 else 1)))"
    by simp
next
  fix G :: "'a nxgraph_scheme" and imap zero x2 x y
  assume "zero \<noteq> []" and "visit_generation G zero imap [] = Inr x2" and "(x, y) = x2"
  then have "visit_generation G zero imap [] = Inr (x, y)" by simp
  from visit_generation_length [OF this] \<open>zero \<noteq> []\<close>
  show "((G, x, y), G, imap, zero)
       \<in> measure (\<lambda>(G, imap, zero). 2 * length imap + (if zero = [] then 0 else 1))"
    by (cases y) auto
qed

definition topological_sort :: "'a nxgraph_scheme \<Rightarrow> key list \<times> error option" where
  "topological_sort G =
     topological_generations_loop G
       (filter (\<lambda>(v, d). d > 0) (map (\<lambda>v. (v, in_degree G v)) (nodes G)))
       (filter (\<lambda>v. in_degree G v = 0) (nodes G))"


text \<open>
  \<open>is_directed_acyclic_graph\<close>, by what networkx documents it to return: whether the
  directed graph has no cycle.
\<close>

definition is_directed_acyclic_graph :: "'a nxgraph_scheme \<Rightarrow> bool" where
  "is_directed_acyclic_graph G = acyclic (set (edges G))"

text \<open>The nodes a depth-first search reaches, in the order it first sees them.\<close>

lemma adj_not_node: "x \<notin> set (nodes G) \<Longrightarrow> adj G x = []"
  by (simp add: adj_def nodes_def map_of_eq_None_iff [THEN iffD2])

function dfs_visit :: "'a nxgraph_scheme \<Rightarrow> key list \<Rightarrow> key list \<Rightarrow> key list" where
  "dfs_visit G [] visited = visited"
| "dfs_visit G (x # stack) visited =
     (if x \<in> set visited then dfs_visit G stack visited
      else dfs_visit G (adj G x @ stack) (visited @ [x]))"
  by pat_completeness auto
termination
proof (relation "measures [\<lambda>(G, stack, visited). card (set (nodes G) - set visited),
                            \<lambda>(G, stack, visited). length stack]")
  show "wf (measures [\<lambda>(G, stack, visited). card (set (nodes G) - set visited),
                      \<lambda>(G :: 'a nxgraph_scheme, stack, visited). length stack])"
    by simp
next
  fix G :: "'a nxgraph_scheme" and x :: key and stack visited :: "key list"
  assume "x \<in> set visited"
  then show "((G, stack, visited), G, x # stack, visited)
       \<in> measures [\<lambda>(G, stack, visited). card (set (nodes G) - set visited),
                    \<lambda>(G, stack, visited). length stack]"
    by simp
next
  fix G :: "'a nxgraph_scheme" and x :: key and stack visited :: "key list"
  assume new: "x \<notin> set visited"
  show "((G, adj G x @ stack, visited @ [x]), G, x # stack, visited)
       \<in> measures [\<lambda>(G, stack, visited). card (set (nodes G) - set visited),
                    \<lambda>(G, stack, visited). length stack]"
  proof (cases "x \<in> set (nodes G)")
    case True
    have eq: "set (nodes G) - set (visited @ [x]) = (set (nodes G) - set visited) - {x}"
      by auto
    have mem: "x \<in> set (nodes G) - set visited" using True new by simp
    have fin: "finite (set (nodes G) - set visited)" by simp
    have "card ((set (nodes G) - set visited) - {x}) < card (set (nodes G) - set visited)"
      by (rule card_Diff1_less [OF fin mem])
    then have "card (set (nodes G) - set (visited @ [x])) < card (set (nodes G) - set visited)"
      by (simp only: eq)
    then show ?thesis by simp
  next
    case False
    then have "set (nodes G) - set (visited @ [x]) = set (nodes G) - set visited"
      by auto
    then show ?thesis using adj_not_node [OF False] by simp
  qed
qed

text \<open>\<open>{y for x, y in nx.dfs_edges(G, v)}\<close>: everything the search from \<open>v\<close> reaches,
  \<open>v\<close> itself left out.\<close>

definition descendants :: "'a nxgraph_scheme \<Rightarrow> key \<Rightarrow> key list" where
  "descendants G v = tl (dfs_visit G (adj G v) [v])"

text \<open>
  \<open>transitive_reduction\<close>.  For a node \<open>u\<close>, \<open>u_nbrs\<close> starts as \<open>set(G[u])\<close>; for each
  \<open>v\<close> in \<open>G[u]\<close> that is still in \<open>u_nbrs\<close>, the descendants of \<open>v\<close> are taken out.
  The edges of \<open>u\<close> are then added in the order in which Python iterates the set
  \<open>u_nbrs\<close>.  That order depends on the hashes of the strings, which change from run to
  run: it is the parameter \<open>set_iter\<close>, applied to the members of the set.
\<close>

fun reduce_nbrs :: "'a nxgraph_scheme \<Rightarrow> key list \<Rightarrow> key list \<Rightarrow> key list" where
  "reduce_nbrs G [] u_nbrs = u_nbrs"
| "reduce_nbrs G (v # vs) u_nbrs =
     reduce_nbrs G vs
       (if v \<in> set u_nbrs then filter (\<lambda>y. y \<notin> set (descendants G v)) u_nbrs else u_nbrs)"

definition add_nodes_from :: "key list \<Rightarrow> 'a nxgraph_scheme \<Rightarrow> 'a nxgraph_scheme" where
  "add_nodes_from ks G = foldl (\<lambda>g k. add_node k [] g) G ks"

definition add_edges_from :: "(key \<times> key) list \<Rightarrow> 'a nxgraph_scheme \<Rightarrow> 'a nxgraph_scheme" where
  "add_edges_from es G = foldl (\<lambda>g (u, v). add_edge u v g) G es"

definition transitive_reduction :: "(key list \<Rightarrow> key list) \<Rightarrow> 'a nxgraph_scheme \<Rightarrow> error + nxgraph" where
  "transitive_reduction set_iter G =
     (if \<not> is_directed_acyclic_graph G then Inl NetworkXError
      else Inr (foldl
                  (\<lambda>TR u. add_edges_from
                             (map (\<lambda>v. (u, v)) (set_iter (reduce_nbrs G (adj G u) (remdups (adj G u))))) TR)
                  (add_nodes_from (nodes G) \<lparr>entries = []\<rparr>)
                  (nodes G)))"

section \<open>graphs.py: the cached properties and the heaviest path\<close>

text \<open>\<open>MakeGrindDiGraph.reduced\<close>\<close>

definition reduced :: "(key list \<Rightarrow> key list) \<Rightarrow> 'a makegrind_digraph_scheme
    \<Rightarrow> error + (nxgraph \<times> 'a makegrind_digraph_scheme)" where
  "reduced set_iter G =
     (case cached_reduced G of
        Some R \<Rightarrow> Inr (R, G)
      | None \<Rightarrow>
          (case transitive_reduction set_iter G of
             Inl e \<Rightarrow> Inl e
           | Inr R \<Rightarrow> Inr (R, G\<lparr>cached_reduced := Some R\<rparr>)))"

text \<open>
  \<open>MakeGrindDiGraph.entry\<close>.  The \<open>else\<close> of the \<open>for\<close> loop names \<open>mg_exceptions\<close>,
  which \<open>graphs.py\<close> neither imports nor defines: evaluating the name raises
  \<open>NameError\<close> before any exception object is built.  When the iteration itself ends by
  an exception, that one leaves the loop.
\<close>

definition entry :: "'a makegrind_digraph_scheme \<Rightarrow> error + (pydict \<times> 'a makegrind_digraph_scheme)" where
  "entry G =
     (case cached_entry G of
        Some k \<Rightarrow> (case node_attrs G k of Inl e \<Rightarrow> Inl e | Inr a \<Rightarrow> Inr (a, G))
      | None \<Rightarrow>
          (case topological_sort G of
             (order, err) \<Rightarrow>
               (case find (\<lambda>k. case node_attrs G k of
                                  Inr a \<Rightarrow> valid (node_attr_dict_factory G) a
                                | Inl e \<Rightarrow> False) order of
                  Some k \<Rightarrow>
                    (case node_attrs G k of
                       Inl e \<Rightarrow> Inl e
                     | Inr a \<Rightarrow> Inr (a, G\<lparr>cached_entry := Some k\<rparr>))
                | None \<Rightarrow>
                    (case err of
                       Some e \<Rightarrow> Inl e
                     | None \<Rightarrow> Inl (NameError ''mg_exceptions'')))))"

text \<open>Python's \<open>max(iterable, key=f, default=None)\<close>: the key of every element is computed
  in order, and the element kept changes only for a strictly greater key.\<close>

fun max_from :: "('a \<Rightarrow> error + int) \<Rightarrow> 'a \<Rightarrow> int \<Rightarrow> 'a list \<Rightarrow> error + 'a" where
  "max_from f m km [] = Inr m"
| "max_from f m km (x # xs) =
     (case f x of
        Inl e \<Rightarrow> Inl e
      | Inr kx \<Rightarrow> if km < kx then max_from f x kx xs else max_from f m km xs)"

definition py_max :: "('a \<Rightarrow> error + int) \<Rightarrow> 'a list \<Rightarrow> error + 'a option" where
  "py_max f xs =
     (case xs of
        [] \<Rightarrow> Inr None
      | x # xs' \<Rightarrow>
          (case f x of
             Inl e \<Rightarrow> Inl e
           | Inr kx \<Rightarrow> (case max_from f x kx xs' of Inl e \<Rightarrow> Inl e | Inr m \<Rightarrow> Inr (Some m))))"

text \<open>\<open>self.nodes[x].elapsed\<close>\<close>

definition node_elapsed :: "localtime \<Rightarrow> 'a nxgraph_scheme \<Rightarrow> key \<Rightarrow> error + int" where
  "node_elapsed tz G x = (case node_attrs G x of Inl e \<Rightarrow> Inl e | Inr a \<Rightarrow> elapsed_of tz a)"

definition heaviest_child :: "localtime \<Rightarrow> (key list \<Rightarrow> key list) \<Rightarrow> 'a makegrind_digraph_scheme \<Rightarrow> key
    \<Rightarrow> error + (key option \<times> 'a makegrind_digraph_scheme)" where
  "heaviest_child tz set_iter G n =
     (case reduced set_iter G of
        Inl e \<Rightarrow> Inl e
      | Inr (R, G') \<Rightarrow>
          (case successors R n of
             Inl e \<Rightarrow> Inl e
           | Inr cs \<Rightarrow>
               (case py_max (node_elapsed tz G') cs of
                  Inl e \<Rightarrow> Inl e
                | Inr c \<Rightarrow> Inr (c, G'))))"

text \<open>
  The generator \<open>heaviest_path\<close>, read to its end as \<open>list(...)\<close> does: \<open>while start\<close>
  stops on \<open>None\<close> and on the empty string.  The loop has no bound of its own, so not
  returning is the value \<open>None\<close>.
\<close>

partial_function (option) heaviest_path_from ::
  "localtime \<Rightarrow> (key list \<Rightarrow> key list) \<Rightarrow> 'a makegrind_digraph_scheme \<Rightarrow> key \<Rightarrow> (error + key list) option" where
  "heaviest_path_from tz set_iter G s =
     (if s = [] then Some (Inr [])
      else case heaviest_child tz set_iter G s of
             Inl e \<Rightarrow> Some (Inl e)
           | Inr (None, G') \<Rightarrow> Some (Inr [s])
           | Inr (Some c, G') \<Rightarrow>
               Option.bind (heaviest_path_from tz set_iter G' c)
                 (\<lambda>r. Some (case r of Inl e \<Rightarrow> Inl e | Inr p \<Rightarrow> Inr (s # p))))"

definition heaviest_path :: "localtime \<Rightarrow> (key list \<Rightarrow> key list) \<Rightarrow> 'a makegrind_digraph_scheme \<Rightarrow> key option
    \<Rightarrow> (error + key list) option" where
  "heaviest_path tz set_iter G start_arg =
     (case start_arg of
        Some s \<Rightarrow> heaviest_path_from tz set_iter G s
      | None \<Rightarrow>
          (case entry G of
             Inl e \<Rightarrow> Some (Inl e)
           | Inr (a, G') \<Rightarrow>
               (case nodekey (node_attr_dict_factory G') a of
                  Inl e \<Rightarrow> Some (Inl e)
                | Inr k \<Rightarrow> heaviest_path_from tz set_iter G' k)))"

declare heaviest_path_from.simps [code]

section \<open>What the heaviest path is measured against\<close>

text \<open>
  \<open>closed_adjacency\<close>: a successor is itself a node.  networkx keeps this of every
  graph, since \<open>add_edge\<close> adds both ends (lemma \<open>closed_adjacency_add_target\<close>), and
  the keys of a target graph are never empty (lemma \<open>keys_add_target\<close>).  \<open>timed\<close>:
  the \<open>elapsed\<close> of every node can be read, that is, its \<open>start\<close> and \<open>end\<close> are
  numbers that \<open>fromtimestamp\<close> converts, where they are present.
\<close>

definition closed_adjacency :: "'a nxgraph_scheme \<Rightarrow> bool" where
  "closed_adjacency G = list_all (\<lambda>u. list_all (has_node G) (adj G u)) (nodes G)"

definition timed :: "localtime \<Rightarrow> 'a nxgraph_scheme \<Rightarrow> bool" where
  "timed tz G = list_all (\<lambda>k. case node_elapsed tz G k of Inr d \<Rightarrow> True | Inl e \<Rightarrow> False) (nodes G)"

definition elapsed_le :: "error + int \<Rightarrow> error + int \<Rightarrow> bool" where
  "elapsed_le a b = (case (a, b) of (Inr x, Inr y) \<Rightarrow> x \<le> y | _ \<Rightarrow> False)"

text \<open>
  A walk that takes a heaviest successor at every step and ends at a node without
  successors: every next key is a successor of the key before it, no successor of that
  key has a greater elapsed time, and the last key has no successor.
\<close>

fun heaviest_steps :: "(key \<Rightarrow> key list) \<Rightarrow> (key \<Rightarrow> error + int) \<Rightarrow> key list \<Rightarrow> bool" where
  "heaviest_steps succ el [] = False"
| "heaviest_steps succ el [x] = (succ x = [])"
| "heaviest_steps succ el (x # y # p) =
     (y \<in> set (succ x) \<and> list_all (\<lambda>c. elapsed_le (el c) (el y)) (succ x)
      \<and> heaviest_steps succ el (y # p))"

text \<open>A target graph of one process: \<open>all\<close> depends on \<open>a\<close>, \<open>b\<close> and \<open>c\<close>, and both
  \<open>a\<close> and \<open>b\<close> depend on \<open>c\<close>.\<close>

definition example_targets :: makegrind_digraph where
  "example_targets =
     \<lparr>entries =
        [(''1:all'', [(''name'', VStr ''all''), (''pid'', VNum 1), (''start'', VNum 0), (''end'', VNum 10)],
            [''1:a'', ''1:b'', ''1:c'']),
         (''1:a'', [(''name'', VStr ''a''), (''pid'', VNum 1), (''start'', VNum 0), (''end'', VNum 3)],
            [''1:c'']),
         (''1:b'', [(''name'', VStr ''b''), (''pid'', VNum 1), (''start'', VNum 3), (''end'', VNum 9)],
            [''1:c'']),
         (''1:c'', [(''name'', VStr ''c''), (''pid'', VNum 1), (''start'', VNum 0), (''end'', VNum 2)],
            [])],
      node_attr_dict_factory = TargetNode, cached_reduced = None, cached_entry = None\<rparr>"

section \<open>graphs.py: BuildDiGraph and the ingestion of a process record\<close>

record build_digraph = makegrind_digraph +
  targets :: makegrind_digraph

definition BuildDiGraph :: build_digraph where
  "BuildDiGraph = graph_clear \<lparr>entries = [], node_attr_dict_factory = BuildNode,
                               cached_reduced = None, cached_entry = None,
                               targets = TargetDiGraph\<rparr>"

text \<open>An attribute of a node of the graph read as \<open>node.name\<close>: \<open>Node.__getattr__\<close>.\<close>

definition attr_of :: "pydict \<Rightarrow> string \<Rightarrow> error + pyval" where
  "attr_of a name = (case map_of a name of Some v \<Rightarrow> Inr v | None \<Rightarrow> Inl (AttributeError name))"

text \<open>\<open>value[name]\<close> on any value: only a dict can be read by a string.\<close>

definition subscript :: "pyval \<Rightarrow> string \<Rightarrow> error + pyval" where
  "subscript v name = (case v of VDict d \<Rightarrow> getitem d name | _ \<Rightarrow> Inl TypeError)"

text \<open>
  \<open>TargetDiGraph.add_nodes_from_build\<close>: for every target, \<open>target["pid"] = build.pid\<close>
  and \<open>target["directory"] = build.directory\<close>, then \<open>add_target\<close>.  \<open>build\<close> is the
  node of the process; a target that is not a dict cannot be assigned to.
\<close>

fun target_add_nodes_from_build ::
  "pydict \<Rightarrow> pyval list \<Rightarrow> 'a makegrind_digraph_scheme \<Rightarrow> error + 'a makegrind_digraph_scheme" where
  "target_add_nodes_from_build build [] G = Inr G"
| "target_add_nodes_from_build build (t # ts) G =
     (case attr_of build ''pid'' of
        Inl e \<Rightarrow> Inl e
      | Inr pid \<Rightarrow>
          (case t of
             VDict target \<Rightarrow>
               (case attr_of build ''directory'' of
                  Inl e \<Rightarrow> Inl e
                | Inr dir \<Rightarrow>
                    (case add_target (AList.update ''directory'' dir (AList.update ''pid'' pid target)) G of
                       Inl e \<Rightarrow> Inl e
                     | Inr G' \<Rightarrow> target_add_nodes_from_build build ts G'))
           | _ \<Rightarrow> Inl TypeError))"

text \<open>\<open>BuildNode.entry\<close>: the keys of the entry targets of a process.\<close>

definition build_entry :: "pydict \<Rightarrow> error + key list" where
  "build_entry a =
     (case getitem a ''entry'' of
        Inl e \<Rightarrow> Inl e
      | Inr es \<Rightarrow>
          (case py_iter es of
             Inl e \<Rightarrow> Inl e
           | Inr [] \<Rightarrow> Inr []
           | Inr ents \<Rightarrow>
               (case getitem a ''pid'' of
                  Inl e \<Rightarrow> Inl e
                | Inr pid \<Rightarrow> Inr (map (dep_key pid) ents))))"

text \<open>\<open>TargetDiGraph.add_parent_edges\<close>: an edge from the invoking target of the parent to
  every entry target, and \<open>self.nodes[pkey]["recursive"] = True\<close> after each edge.\<close>

fun add_recursive_edges :: "key \<Rightarrow> key list \<Rightarrow> 'a nxgraph_scheme \<Rightarrow> error + 'a nxgraph_scheme" where
  "add_recursive_edges pkey [] G = Inr G"
| "add_recursive_edges pkey (ent # ents) G =
     (case update_node pkey [(''recursive'', VBool True)] (add_edge pkey ent G) of
        Inl e \<Rightarrow> Inl e
      | Inr G' \<Rightarrow> add_recursive_edges pkey ents G')"

definition add_parent_edges ::
  "pydict \<Rightarrow> pyval \<Rightarrow> 'a makegrind_digraph_scheme \<Rightarrow> error + 'a makegrind_digraph_scheme" where
  "add_parent_edges build parent G =
     (case subscript parent ''pid'' of
        Inl e \<Rightarrow> Inl e
      | Inr ppid \<Rightarrow>
          (case subscript parent ''target'' of
             Inl e \<Rightarrow> Inl e
           | Inr ptarget \<Rightarrow>
               (case build_entry build of
                  Inl e \<Rightarrow> Inl e
                | Inr ents \<Rightarrow> add_recursive_edges (dep_key ppid ptarget) ents G)))"

text \<open>
  \<open>BuildDiGraph.add_nodes_from_build\<close>.  The record is a dict; its \<open>targets\<close> are popped,
  the rest becomes the attributes of the process node, and \<open>parent\<close>, when present, is
  read as \<open>{pid, target}\<close>: an edge from the node keyed by \<open>parent["pid"]\<close>, and the
  parent edges of the target graph.  Nothing reads any other key of \<open>parent\<close>.
\<close>

definition add_nodes_from_build :: "pyval \<Rightarrow> build_digraph \<Rightarrow> error + build_digraph" where
  "add_nodes_from_build record G =
     (case subscript record ''pid'' of
        Inl e \<Rightarrow> Inl e
      | Inr pid \<Rightarrow>
          (case record of
             VDict build0 \<Rightarrow>
               (let tgs = (case map_of build0 ''targets'' of Some t \<Rightarrow> t | None \<Rightarrow> VList []);
                    build = AList.delete ''targets'' build0;
                    k = py_str pid;
                    G1 = add_node k build G
                in case node_attrs G1 k of
                     Inl e \<Rightarrow> Inl e
                   | Inr node \<Rightarrow>
                       (case py_iter tgs of
                          Inl e \<Rightarrow> Inl e
                        | Inr ts \<Rightarrow>
                            (case target_add_nodes_from_build node ts (targets G1) of
                               Inl e \<Rightarrow> Inl e
                             | Inr T1 \<Rightarrow>
                                 (case map_of build ''parent'' of
                                    None \<Rightarrow> Inr (G1\<lparr>targets := T1\<rparr>)
                                  | Some parent \<Rightarrow>
                                      (case subscript parent ''pid'' of
                                         Inl e \<Rightarrow> Inl e
                                       | Inr ppid \<Rightarrow>
                                           (let G2 = add_edge (py_str ppid) k (G1\<lparr>targets := T1\<rparr>)
                                            in case node_attrs G2 k of
                                                 Inl e \<Rightarrow> Inl e
                                               | Inr node' \<Rightarrow>
                                                   (case add_parent_edges node' parent T1 of
                                                      Inl e \<Rightarrow> Inl e
                                                    | Inr T2 \<Rightarrow> Inr (G2\<lparr>targets := T2\<rparr>))))))))
           | _ \<Rightarrow> Inl TypeError))"

text \<open>\<open>BuildDiGraph.from_build\<close>, which \<open>from_json\<close> and \<open>from_remake\<close> call with the
  parsed file.\<close>

definition from_build :: "pyval \<Rightarrow> error + build_digraph" where
  "from_build record = add_nodes_from_build record BuildDiGraph"




section \<open>graphs.py and node.py: paths\<close>

text \<open>
  \<open>os.path\<close> on POSIX.  \<open>abspath\<close> and \<open>relpath\<close> depend on the working directory
  and normalise their argument: they are parameters.  \<open>join\<close> of two parts and
  \<open>basename\<close> are written out; \<open>commonprefix\<close> of two strings equals the first one
  exactly when the first is a prefix of the second.
\<close>

record os_path =
  abspath :: "string \<Rightarrow> string"
  os_relpath :: "string \<Rightarrow> string \<Rightarrow> string"

definition startswith_slash :: "string \<Rightarrow> bool" where
  "startswith_slash p = (case p of [] \<Rightarrow> False | c # cs \<Rightarrow> c = CHR ''/'')"

definition os_join :: "string \<Rightarrow> string \<Rightarrow> string" where
  "os_join a b =
     (if startswith_slash b then b
      else if a = [] \<or> last a = CHR ''/'' then a @ b
      else a @ ''/'' @ b)"

definition basename :: "string \<Rightarrow> string" where
  "basename p = rev (takeWhile (\<lambda>c. c \<noteq> CHR ''/'') (rev p))"

text \<open>The truth value of a Python value, as \<open>if\<close>, \<open>and\<close> and \<open>not\<close> read it.\<close>

fun truthy :: "pyval \<Rightarrow> bool" where
  "truthy VNone = False"
| "truthy (VBool b) = b"
| "truthy (VNum n) = (n \<noteq> 0)"
| "truthy (VStr s) = (s \<noteq> [])"
| "truthy (VList xs) = (xs \<noteq> [])"
| "truthy (VDict kvs) = (kvs \<noteq> [])"

text \<open>\<open>dict.get(name)\<close> and \<open>dict.get(name, default)\<close>\<close>

definition dict_get :: "pydict \<Rightarrow> string \<Rightarrow> pyval \<Rightarrow> pyval" where
  "dict_get a name dflt = (case map_of a name of Some v \<Rightarrow> v | None \<Rightarrow> dflt)"

text \<open>\<open>TargetNode.path\<close>\<close>

definition node_path :: "pydict \<Rightarrow> error + pyval" where
  "node_path a =
     (let fname = dict_get a ''file'' VNone; fdir = dict_get a ''directory'' VNone
      in if truthy fname \<and> truthy fdir
         then (case (fdir, fname) of
                 (VStr d, VStr f) \<Rightarrow> Inr (VStr (os_join d f))
               | _ \<Rightarrow> Inl TypeError)
         else Inr VNone)"

text \<open>
  \<open>BuildDiGraph.prefix\<close> is \<open>self.entry.directory\<close>.  Reading \<open>entry\<close> fills its memo
  with the key it returns, so reading it again returns the same node (lemma
  \<open>entry_again\<close>): the functions below read it from the graph they are given and
  return their result only.
\<close>

definition prefix :: "build_digraph \<Rightarrow> error + pyval" where
  "prefix G = (case entry G of Inl e \<Rightarrow> Inl e | Inr (a, G') \<Rightarrow> attr_of a ''directory'')"

definition prefix_str :: "build_digraph \<Rightarrow> error + string" where
  "prefix_str G =
     (case prefix G of
        Inl e \<Rightarrow> Inl e
      | Inr (VStr d) \<Rightarrow> Inr d
      | Inr v \<Rightarrow> Inl TypeError)"

text \<open>\<open>BuildDiGraph.relpath\<close>: \<open>None\<close> passes through, a value without \<open>startswith\<close>
  raises \<open>AttributeError\<close>.\<close>

definition relpath :: "os_path \<Rightarrow> build_digraph \<Rightarrow> pyval \<Rightarrow> error + pyval" where
  "relpath os G path =
     (case path of
        VNone \<Rightarrow> Inr VNone
      | VStr p \<Rightarrow>
          (case (if startswith_slash p
                 then (case prefix_str G of Inl e \<Rightarrow> Inl e | Inr d \<Rightarrow> Inr (os_relpath os p d))
                 else Inr p) of
             Inl e \<Rightarrow> Inl e
           | Inr p' \<Rightarrow>
               if p' = ''.''
               then (case prefix_str G of Inl e \<Rightarrow> Inl e | Inr d \<Rightarrow> Inr (VStr (basename d)))
               else Inr (VStr p'))
      | _ \<Rightarrow> Inl (AttributeError ''startswith''))"

section \<open>util.py: resolve_path and find_target\<close>

definition resolve_path :: "os_path \<Rightarrow> build_digraph \<Rightarrow> string \<Rightarrow> error + pyval" where
  "resolve_path os G path =
     (case prefix_str G of
        Inl e \<Rightarrow> Inl e
      | Inr d \<Rightarrow>
          relpath os G
            (VStr (if take (length d) (abspath os path) = d then abspath os path
                   else os_join d path)))"

text \<open>\<open>data.name != target\<close> for a string and \<open>data.pid != pid\<close> for an int (\<open>True\<close> and
  \<open>False\<close> equal 1 and 0).\<close>

definition eq_str :: "pyval \<Rightarrow> string \<Rightarrow> bool" where
  "eq_str v t = (v = VStr t)"

definition eq_int :: "pyval \<Rightarrow> int \<Rightarrow> bool" where
  "eq_int v i = (case v of VNum n \<Rightarrow> n = i | VBool b \<Rightarrow> (if b then 1 else 0) = i | _ \<Rightarrow> False)"

text \<open>
  The closure \<open>checker\<close>, on the raw node of a target.  \<open>makefile\<close> is the resolved
  filter; \<open>and\<close> reads \<open>data.directory\<close> only when the path differs.
\<close>

definition checker ::
  "os_path \<Rightarrow> build_digraph \<Rightarrow> string option \<Rightarrow> pyval option \<Rightarrow> int option \<Rightarrow> pydict \<Rightarrow> error + bool" where
  "checker os G target makefile pid data =
     (case (case target of
              None \<Rightarrow> Inr True
            | Some t \<Rightarrow> (case attr_of data ''name'' of Inl e \<Rightarrow> Inl e | Inr v \<Rightarrow> Inr (eq_str v t))) of
        Inl e \<Rightarrow> Inl e
      | Inr False \<Rightarrow> Inr False
      | Inr True \<Rightarrow>
          (case (case makefile of
                   None \<Rightarrow> Inr True
                 | Some m \<Rightarrow>
                     (case node_path data of
                        Inl e \<Rightarrow> Inl e
                      | Inr p \<Rightarrow>
                          (case relpath os G p of
                             Inl e \<Rightarrow> Inl e
                           | Inr rp \<Rightarrow>
                               if rp = m then Inr True
                               else (case attr_of data ''directory'' of
                                       Inl e \<Rightarrow> Inl e
                                     | Inr d \<Rightarrow>
                                         (case relpath os G d of
                                            Inl e \<Rightarrow> Inl e
                                          | Inr rd \<Rightarrow> Inr (rd = m)))))) of
             Inl e \<Rightarrow> Inl e
           | Inr False \<Rightarrow> Inr False
           | Inr True \<Rightarrow>
               (case pid of
                  None \<Rightarrow> Inr True
                | Some i \<Rightarrow> (case attr_of data ''pid'' of Inl e \<Rightarrow> Inl e | Inr v \<Rightarrow> Inr (eq_int v i)))))"

text \<open>\<open>filter(checker, ...)\<close>, read to its end by \<open>sorted\<close>.\<close>

fun filter_nodes :: "(pydict \<Rightarrow> error + bool) \<Rightarrow> (key \<times> pydict) list \<Rightarrow> error + (key \<times> pydict) list" where
  "filter_nodes f [] = Inr []"
| "filter_nodes f (x # xs) =
     (case f (snd x) of
        Inl e \<Rightarrow> Inl e
      | Inr keep \<Rightarrow>
          (case filter_nodes f xs of
             Inl e \<Rightarrow> Inl e
           | Inr ys \<Rightarrow> Inr (if keep then x # ys else ys)))"

text \<open>The keys of \<open>sorted\<close>, computed for every element before any comparison.\<close>

fun with_keys :: "('a \<Rightarrow> error + int) \<Rightarrow> 'a list \<Rightarrow> error + (int \<times> 'a) list" where
  "with_keys f [] = Inr []"
| "with_keys f (x # xs) =
     (case f x of
        Inl e \<Rightarrow> Inl e
      | Inr k \<Rightarrow> (case with_keys f xs of Inl e \<Rightarrow> Inl e | Inr ys \<Rightarrow> Inr ((k, x) # ys)))"

text \<open>\<open>sorted(xs, key=f)\<close> is a stable ascending sort; \<open>reverse=True\<close> keeps the order of
  equal keys as well, which is a stable sort on the negated key.\<close>

definition py_sorted :: "('a \<Rightarrow> error + int) \<Rightarrow> bool \<Rightarrow> 'a list \<Rightarrow> error + 'a list" where
  "py_sorted f reverse xs =
     (case with_keys f xs of
        Inl e \<Rightarrow> Inl e
      | Inr ks \<Rightarrow> Inr (map snd (sort_key (\<lambda>kx. if reverse then - fst kx else fst kx) ks)))"

definition node_data :: "'a nxgraph_scheme \<Rightarrow> (key \<times> pydict) list" where
  "node_data G = map (\<lambda>(k, a, vs). (k, a)) (entries G)"

definition not_found_message :: "string option \<Rightarrow> pyval option \<Rightarrow> int option \<Rightarrow> string" where
  "not_found_message target makefile pid =
     join '' ''
       ([''No targets'']
        @ (case target of None \<Rightarrow> [] | Some t \<Rightarrow> [''named '' @ [CHR 0x27] @ t @ [CHR 0x27]])
        @ (case makefile of None \<Rightarrow> [] | Some m \<Rightarrow> [''in file '' @ [CHR 0x27] @ py_str m @ [CHR 0x27]])
        @ (case pid of None \<Rightarrow> [] | Some i \<Rightarrow> [''with pid '' @ [CHR 0x27] @ str_int i @ [CHR 0x27]]))"

definition find_target ::
  "localtime \<Rightarrow> os_path \<Rightarrow> build_digraph \<Rightarrow> string option \<Rightarrow> string option \<Rightarrow> int option \<Rightarrow> error + key list" where
  "find_target tz os G target makefile pid =
     (if target = None \<and> makefile = None \<and> pid = None
      then Inl (TargetNotFoundError ''No filtering criteria'')
      else case (case makefile of
                   None \<Rightarrow> Inr None
                 | Some m \<Rightarrow> (case resolve_path os G m of Inl e \<Rightarrow> Inl e | Inr r \<Rightarrow> Inr (Some r))) of
             Inl e \<Rightarrow> Inl e
           | Inr makefile' \<Rightarrow>
               (case filter_nodes (checker os G target makefile' pid) (node_data (targets G)) of
                  Inl e \<Rightarrow> Inl e
                | Inr matched \<Rightarrow>
                    (case py_sorted (\<lambda>x. elapsed_of tz (snd x)) False matched of
                       Inl e \<Rightarrow> Inl e
                     | Inr [] \<Rightarrow> Inl (TargetNotFoundError (not_found_message target makefile' pid))
                     | Inr sorted_nodes \<Rightarrow> Inr (map fst sorted_nodes))))"

text \<open>The class of the exception an error value stands for.\<close>

fun exception_class :: "error \<Rightarrow> string" where
  "exception_class (AttributeError n) = ''AttributeError''"
| "exception_class (KeyError k) = ''KeyError''"
| "exception_class TypeError = ''TypeError''"
| "exception_class (NameError n) = ''NameError''"
| "exception_class IndexError = ''IndexError''"
| "exception_class ZeroDivisionError = ''ZeroDivisionError''"
| "exception_class RuntimeError = ''RuntimeError''"
| "exception_class NetworkXError = ''NetworkXError''"
| "exception_class NetworkXUnfeasible = ''NetworkXUnfeasible''"
| "exception_class (NodeNotFound k) = ''NodeNotFound''"
| "exception_class ValueError = ''ValueError''"
| "exception_class OverflowError = ''OverflowError''"
| "exception_class OSError = ''OSError''"
| "exception_class (TargetNotFoundError m) = ''TargetNotFoundError''"
| "exception_class (DepChainNotFoundError m args) = ''DepChainNotFoundError''"

section \<open>networkx: all_simple_paths\<close>

text \<open>
  \<open>setup.py\<close> requires \<open>networkx\<close> without a version, and the releases differ in
  \<open>all_simple_paths\<close>.  The older ones enumerate node paths with
  \<open>_all_simple_paths_graph\<close>; the newer ones enumerate edge paths with
  \<open>_all_simple_edge_paths\<close> and, other than the older ones, report the path of the source
  alone when the source is itself a target.  The release is a parameter of everything that
  enumerates paths.
\<close>

datatype simple_paths = Node_paths | Edge_paths

text \<open>
  The depth-first enumeration of \<open>_all_simple_paths_graph\<close>: \<open>visited\<close> is the path so
  far, \<open>children\<close> what is left of the successors of its last node, and the number is
  \<open>cutoff - len(visited)\<close>.  Below the cutoff a child that is not on the path is
  reported when it is a target, and searched further while some target is not on the
  path.  At the cutoff the targets among the remaining children are reported, in the
  order of iterating a set, and the level is left.
\<close>

fun simple_paths_graph ::
  "'a nxgraph_scheme \<Rightarrow> (key list \<Rightarrow> key list) \<Rightarrow> key list \<Rightarrow> nat \<Rightarrow> key list \<Rightarrow> key list
    \<Rightarrow> key list list" where
  "simple_paths_graph G set_iter ts d visited [] = []"
| "simple_paths_graph G set_iter ts 0 visited (child # rest) =
     map (\<lambda>t. visited @ [t])
       (set_iter (filter (\<lambda>t. t \<in> set (child # rest) \<and> t \<notin> set visited) (remdups ts)))"
| "simple_paths_graph G set_iter ts (Suc d) visited (child # rest) =
     (if child \<in> set visited then simple_paths_graph G set_iter ts (Suc d) visited rest
      else (if child \<in> set ts then [visited @ [child]] else [])
           @ (if \<exists>t\<in>set ts. t \<notin> set (visited @ [child])
              then simple_paths_graph G set_iter ts d (visited @ [child]) (adj G child)
              else [])
           @ simple_paths_graph G set_iter ts (Suc d) visited rest)"

text \<open>
  The depth-first enumeration of \<open>_all_simple_edge_paths\<close>, with every edge path already
  turned into its node path.  \<open>path\<close> is the nodes of \<open>current_path\<close>, \<open>nexts\<close> the ends
  of the edges left at the top of the stack, and the number is
  \<open>cutoff - (len(current_path) - 1)\<close>.  The next node that is not on the path is reported
  when it is a target, and searched further below the cutoff while some target is
  neither on the path nor this node.  The search starts from a dummy edge to the source.
\<close>

fun simple_edge_paths ::
  "'a nxgraph_scheme \<Rightarrow> key list \<Rightarrow> nat \<Rightarrow> key list \<Rightarrow> key list \<Rightarrow> key list list" where
  "simple_edge_paths G ts d path [] = []"
| "simple_edge_paths G ts 0 path (next_node # nexts) =
     (if next_node \<in> set path then simple_edge_paths G ts 0 path nexts
      else (if next_node \<in> set ts then [path @ [next_node]] else [])
           @ simple_edge_paths G ts 0 path nexts)"
| "simple_edge_paths G ts (Suc d) path (next_node # nexts) =
     (if next_node \<in> set path then simple_edge_paths G ts (Suc d) path nexts
      else (if next_node \<in> set ts then [path @ [next_node]] else [])
           @ (if \<exists>t\<in>set ts. t \<notin> set (path @ [next_node])
              then simple_edge_paths G ts d (path @ [next_node]) (adj G next_node)
              else [])
           @ simple_edge_paths G ts (Suc d) path nexts)"

text \<open>
  \<open>all_simple_paths(G, source, target)\<close> with no cutoff given: the cutoff is
  \<open>len(G) - 1\<close>.  A target that is not a node is read as the set of its elements, which
  for a string are its characters.  With the older enumeration a source that is itself a
  target yields no path, and neither does a cutoff below one; the newer one enumerates
  whenever there is a target.
\<close>

definition all_simple_paths ::
  "simple_paths \<Rightarrow> (key list \<Rightarrow> key list) \<Rightarrow> 'a nxgraph_scheme \<Rightarrow> key \<Rightarrow> key \<Rightarrow> error + key list list" where
  "all_simple_paths nx set_iter G source target =
     (if \<not> has_node G source then Inl (NodeNotFound source)
      else let ts = (if has_node G target then [target] else map (\<lambda>c. [c]) target);
               cutoff = length (nodes G) - 1
           in case nx of
                Node_paths \<Rightarrow>
                  if source \<in> set ts \<or> cutoff < 1 then Inr []
                  else Inr (simple_paths_graph G set_iter ts (cutoff - 1) [source] (adj G source))
              | Edge_paths \<Rightarrow>
                  if ts = [] then Inr []
                  else Inr (simple_edge_paths G ts cutoff [] [source]))"

section \<open>util.py: find_path\<close>

text \<open>\<open>segment[1]\<close>\<close>

definition second :: "key list \<Rightarrow> error + key" where
  "second seg = (case seg of x # y # zs \<Rightarrow> Inr y | _ \<Rightarrow> Inl IndexError)"

text \<open>The inner loop of the first hop: \<open>path\<close> changes to a segment whose second node has
  a strictly greater elapsed time.\<close>

fun choose_segment :: "localtime \<Rightarrow> 'a nxgraph_scheme \<Rightarrow> key list option \<Rightarrow> key list list \<Rightarrow> error + key list option" where
  "choose_segment tz T path [] = Inr path"
| "choose_segment tz T None (seg # segs) = choose_segment tz T (Some seg) segs"
| "choose_segment tz T (Some path) (seg # segs) =
     (case second path of
        Inl e \<Rightarrow> Inl e
      | Inr p1 \<Rightarrow>
          (case node_elapsed tz T p1 of
             Inl e \<Rightarrow> Inl e
           | Inr ep \<Rightarrow>
               (case second seg of
                  Inl e \<Rightarrow> Inl e
                | Inr s1 \<Rightarrow>
                    (case node_elapsed tz T s1 of
                       Inl e \<Rightarrow> Inl e
                     | Inr es \<Rightarrow> choose_segment tz T (Some (if ep < es then seg else path)) segs))))"

fun first_hop ::
  "simple_paths \<Rightarrow> localtime \<Rightarrow> 'a nxgraph_scheme \<Rightarrow> (key list \<Rightarrow> key list) \<Rightarrow> key \<Rightarrow> key list option \<Rightarrow> key list
    \<Rightarrow> error + key list option" where
  "first_hop nx tz T set_iter t path [] = Inr path"
| "first_hop nx tz T set_iter t path (ent # ents) =
     (case all_simple_paths nx set_iter T ent t of
        Inl e \<Rightarrow> Inl e
      | Inr segs \<Rightarrow>
          (case choose_segment tz T path segs of
             Inl e \<Rightarrow> Inl e
           | Inr path' \<Rightarrow> first_hop nx tz T set_iter t path' ents))"

text \<open>
  The inner loop between two waypoints.  Its comparison is
  \<open>info(next_segment[1]).elapsed < info(segment[1])\<close>: a timedelta against a
  \<open>TargetNodeInfo\<close>, which has no ordering, so the comparison itself raises \<open>TypeError\<close>
  as soon as a second segment arrives.
\<close>

fun choose_next :: "localtime \<Rightarrow> 'a nxgraph_scheme \<Rightarrow> key list option \<Rightarrow> key list list \<Rightarrow> error + key list option" where
  "choose_next tz T next_segment [] = Inr next_segment"
| "choose_next tz T None (seg # segs) = choose_next tz T (Some seg) segs"
| "choose_next tz T (Some next_segment) (seg # segs) =
     (case second next_segment of
        Inl e \<Rightarrow> Inl e
      | Inr n1 \<Rightarrow>
          (case node_elapsed tz T n1 of
             Inl e \<Rightarrow> Inl e
           | Inr en \<Rightarrow>
               (case second seg of
                  Inl e \<Rightarrow> Inl e
                | Inr s1 \<Rightarrow>
                    (case node_attrs T s1 of
                       Inl e \<Rightarrow> Inl e
                     | Inr info \<Rightarrow> Inl TypeError))))"

fun stitch ::
  "simple_paths \<Rightarrow> localtime \<Rightarrow> 'a nxgraph_scheme \<Rightarrow> (key list \<Rightarrow> key list) \<Rightarrow> key list \<Rightarrow> key list \<Rightarrow> error + key list" where
  "stitch nx tz T set_iter path [] = Inr path"
| "stitch nx tz T set_iter path (t # ts) =
     (case all_simple_paths nx set_iter T (last path) t of
        Inl e \<Rightarrow> Inl e
      | Inr segs \<Rightarrow>
          (case choose_next tz T None segs of
             Inl e \<Rightarrow> Inl e
           | Inr None \<Rightarrow> Inl (DepChainNotFoundError ''Unable to find path from %s to %s'' [last path, t])
           | Inr (Some next_segment) \<Rightarrow> stitch nx tz T set_iter (path @ tl next_segment) ts))"

text \<open>\<open>find_path(graph, targets)\<close>; no targets is the empty list.  \<open>max\<close> without a
  default raises \<open>ValueError\<close> on an empty sequence.\<close>

definition find_path :: "simple_paths \<Rightarrow> localtime \<Rightarrow> (key list \<Rightarrow> key list) \<Rightarrow> build_digraph \<Rightarrow> key list \<Rightarrow> (error + key list) option" where
  "find_path nx tz set_iter G waypoints =
     (case entry G of
        Inl e \<Rightarrow> Some (Inl e)
      | Inr (a, G') \<Rightarrow>
          (case build_entry a of
             Inl e \<Rightarrow> Some (Inl e)
           | Inr ents \<Rightarrow>
               (case waypoints of
                  [] \<Rightarrow>
                    (case py_max (node_elapsed tz (targets G)) ents of
                       Inl e \<Rightarrow> Some (Inl e)
                     | Inr None \<Rightarrow> Some (Inl ValueError)
                     | Inr (Some ent) \<Rightarrow> heaviest_path tz set_iter (targets G) (Some ent))
                | t # ts \<Rightarrow>
                    (case first_hop nx tz (targets G) set_iter t None ents of
                       Inl e \<Rightarrow> Some (Inl e)
                     | Inr None \<Rightarrow> Some (Inl (DepChainNotFoundError ''Unable to find path to %s'' [t]))
                     | Inr (Some path) \<Rightarrow>
                         (case stitch nx tz (targets G) set_iter path ts of
                            Inl e \<Rightarrow> Some (Inl e)
                          | Inr path' \<Rightarrow>
                              (case heaviest_path tz set_iter (targets G) (Some (last path')) of
                                 None \<Rightarrow> None
                               | Some (Inl e) \<Rightarrow> Some (Inl e)
                               | Some (Inr next_segment) \<Rightarrow> Some (Inr (path' @ tl next_segment))))))))"

section \<open>reports.py: the target report and TopRecipesReport\<close>











text \<open>The class of the exception a call raised, if it raised.\<close>

definition raised :: "error + 'a \<Rightarrow> string option" where
  "raised r = (case r of Inl e \<Rightarrow> Some (exception_class e) | Inr x \<Rightarrow> None)"

section \<open>Two traces\<close>

text \<open>
  A build of one process in \<open>/src\<close> with four targets: \<open>all\<close> depends on \<open>a\<close>, \<open>a\<close> on
  \<open>b\<close> and \<open>c\<close>, \<open>b\<close> on \<open>c\<close>.  Every recipe starts with its target, so the elapsed
  time and the recipe time of a target are the same.  The working directory of the
  analysis is the build root, and its local time is UTC.
\<close>

definition example_os :: os_path where
  "example_os =
     \<lparr>abspath = (\<lambda>p. if startswith_slash p then p else ''/src/'' @ p),
      os_relpath = (\<lambda>p d. if p = d then ''.''
                            else if take (length d + 1) p = d @ ''/'' then drop (length d + 1) p
                            else p)\<rparr>"

definition example_process :: pydict where
  "example_process =
     [(''pid'', VNum 1), (''directory'', VStr ''/src''), (''start'', VNum 0), (''end'', VNum 20),
      (''jobs'', VNum 4), (''entry'', VList [VStr ''all'']),
      (''targets'', VList [
         VDict [(''name'', VStr ''all''), (''file'', VStr ''Makefile''), (''line'', VNum 1),
                (''start'', VNum 0), (''recipe'', VNum 0), (''end'', VNum 20),
                (''depends'', VList [VStr ''a''])],
         VDict [(''name'', VStr ''a''), (''file'', VStr ''Makefile''), (''line'', VNum 3),
                (''start'', VNum 0), (''recipe'', VNum 0), (''end'', VNum 5),
                (''depends'', VList [VStr ''b'', VStr ''c''])],
         VDict [(''name'', VStr ''b''), (''file'', VStr ''Makefile''), (''line'', VNum 5),
                (''start'', VNum 5), (''recipe'', VNum 5), (''end'', VNum 14),
                (''depends'', VList [VStr ''c''])],
         VDict [(''name'', VStr ''c''), (''file'', VStr ''Makefile''), (''line'', VNum 7),
                (''start'', VNum 0), (''recipe'', VNum 0), (''end'', VNum 3)]])]"

definition example_graph :: build_digraph where
  "example_graph = (case from_build (VDict example_process) of Inr G \<Rightarrow> G | Inl e \<Rightarrow> BuildDiGraph)"





section \<open>Properties of the graph operations\<close>

lemma decimal_digit: "n < 10 \<Longrightarrow> decimal n = [digit n]"
  by (subst decimal.simps) simp

lemma decimal_more: "10 \<le> n \<Longrightarrow> decimal n = decimal (n div 10) @ [digit (n mod 10)]"
  by (subst decimal.simps) simp

lemma map_of_touch:
  "map_of (entries (touch k G)) x =
     (if x = k \<and> \<not> has_node G k then Some ([], []) else map_of (entries G) x)"
  by (auto simp: touch_def has_node_def map_add_def split: option.splits)

lemma map_of_add_edge:
  "map_of (entries (add_edge u v G)) x =
     (if x = u then
        (case map_of (entries (touch v (touch u G))) u of
           None \<Rightarrow> None
         | Some (a, vs) \<Rightarrow> Some (a, if v \<in> set vs then vs else vs @ [v]))
      else map_of (entries (touch v (touch u G))) x)"
  by (auto simp: add_edge_def map_of_map_entry split: option.splits)

lemma has_node_add_edge: "has_node (add_edge u v G) x = (has_node G x \<or> x = u \<or> x = v)"
  by (auto simp: has_node_def map_of_add_edge map_of_touch split: option.splits)

lemma node_attrs_add_edge:
  "node_attrs (add_edge u v G) x =
     (if has_node G x then node_attrs G x
      else if x = u \<or> x = v then Inr [] else Inl (KeyError x))"
  by (auto simp: node_attrs_def has_node_def map_of_add_edge map_of_touch split: option.splits)


lemma adj_touch: "adj (touch k G) x = adj G x"
  by (cases "map_of (entries G) k") (simp_all add: adj_def map_of_touch has_node_def)

lemma has_node_touch: "has_node (touch k G) x = (has_node G x \<or> x = k)"
  by (auto simp: has_node_def map_of_touch)

lemma adj_add_edge:
  "set (adj (add_edge u v G) x) = (if x = u then insert v (set (adj G u)) else set (adj G x))"
proof (cases "x = u")
  case True
  have "has_node (touch v (touch u G)) u"
    by (simp add: has_node_touch)
  then obtain a vs where e: "map_of (entries (touch v (touch u G))) u = Some (a, vs)"
    by (auto simp: has_node_def)
  have "adj (add_edge u v G) u = (if v \<in> set vs then vs else vs @ [v])"
    using e by (simp add: adj_def map_of_add_edge)
  moreover have "vs = adj (touch v (touch u G)) u"
    using e by (simp add: adj_def)
  ultimately show ?thesis using True by (auto simp: adj_touch)
next
  case False
  have "adj (add_edge u v G) x = adj (touch v (touch u G)) x"
    using False by (simp add: adj_def map_of_add_edge)
  then show ?thesis using False by (simp add: adj_touch)
qed
lemma adj_add_dep_edges:
  "set (adj (add_dep_edges k deps G) k) = set (adj G k) \<union> set deps"
  unfolding add_dep_edges_def
  by (induction deps arbitrary: G) (auto simp: adj_add_edge)

lemma node_attrs_add_dep_edges:
  "node_attrs (add_dep_edges k deps G) x =
     (if has_node G x then node_attrs G x
      else if deps \<noteq> [] \<and> (x = k \<or> x \<in> set deps) then Inr [] else Inl (KeyError x))"
  unfolding add_dep_edges_def
proof (induction deps arbitrary: G)
  case Nil
  then show ?case by (auto simp: node_attrs_def has_node_def split: option.splits)
next
  case (Cons d deps)
  show ?case
    using Cons.IH [of "add_edge k d G"]
    by (auto simp: has_node_add_edge node_attrs_add_edge)
qed


lemma has_node_add_node: "has_node (add_node k a G) x = (has_node G x \<or> x = k)"
  by (auto simp: add_node_def has_node_def map_of_map_entry map_of_touch split: option.splits)

lemma adj_update_node: "update_node k other G = Inr G' \<Longrightarrow> adj G' x = adj G x"
  by (auto simp: update_node_def adj_def map_of_map_entry split: if_splits option.splits)

lemma has_node_update_node: "update_node k other G = Inr G' \<Longrightarrow> has_node G' x = has_node G x"
  by (auto simp: update_node_def has_node_def map_of_map_entry split: if_splits option.splits)

lemma has_node_nodes: "has_node G k \<longleftrightarrow> k \<in> set (nodes G)"
  by (simp add: has_node_def nodes_def map_of_eq_None_iff)

lemma adj_add_node: "adj (add_node k a G) x = adj G x"
proof -
  have "adj (add_node k a G) x = adj (touch k G) x"
    by (cases "map_of (entries (touch k G)) k")
       (auto simp: add_node_def adj_def map_of_map_entry split: option.splits)
  then show ?thesis by (simp add: adj_touch)
qed

lemma adj_add_nodes_from: "adj (add_nodes_from ks G) x = adj G x"
  unfolding add_nodes_from_def
  by (induction ks arbitrary: G) (simp_all add: adj_add_node)

lemma has_node_add_nodes_from: "has_node (add_nodes_from ks G) x \<longleftrightarrow> has_node G x \<or> x \<in> set ks"
  unfolding add_nodes_from_def
  by (induction ks arbitrary: G) (auto simp: has_node_add_node)

lemma adj_add_edges_from:
  "set (adj (add_edges_from es G) x) = set (adj G x) \<union> {v. (x, v) \<in> set es}"
  unfolding add_edges_from_def
proof (induction es arbitrary: G)
  case Nil
  then show ?case by simp
next
  case (Cons e es)
  obtain u v where e: "e = (u, v)" by (cases e)
  show ?case
    unfolding e foldl_Cons prod.case Cons.IH adj_add_edge
    by auto
qed

lemma has_node_add_edges_from_mono:
  "has_node G x \<Longrightarrow> has_node (add_edges_from es G) x"
  unfolding add_edges_from_def
proof (induction es arbitrary: G)
  case Nil
  then show ?case by simp
next
  case (Cons e es)
  obtain u v where e: "e = (u, v)" by (cases e)
  show ?case
    unfolding e foldl_Cons prod.case
    by (rule Cons.IH) (simp add: has_node_add_edge Cons.prems)
qed

lemma adj_fold_edges:
  "set (adj (foldl (\<lambda>TR u. add_edges_from (map (\<lambda>v. (u, v)) (f u)) TR) R us) x)
     = set (adj R x) \<union> (if x \<in> set us then set (f x) else {})"
proof (induction us arbitrary: R)
  case Nil
  then show ?case by simp
next
  case (Cons u us)
  show ?case
    unfolding foldl_Cons Cons.IH adj_add_edges_from
    by auto
qed

lemma has_node_fold_edges_mono:
  "has_node R x \<Longrightarrow> has_node (foldl (\<lambda>TR u. add_edges_from (map (\<lambda>v. (u, v)) (f u)) TR) R us) x"
  by (induction us arbitrary: R) (simp_all add: has_node_add_edges_from_mono)

lemma reduce_nbrs_subset: "set (reduce_nbrs G vs nbrs) \<subseteq> set nbrs"
  by (induction vs arbitrary: nbrs) (auto split: if_splits, force+)

lemma transitive_reduction_adj:
  assumes "transitive_reduction set_iter G = Inr R"
  shows "set (adj R x) =
           (if x \<in> set (nodes G)
            then set (set_iter (reduce_nbrs G (adj G x) (remdups (adj G x)))) else {})"
proof -
  have R: "R = foldl (\<lambda>TR u. add_edges_from
                 (map (\<lambda>v. (u, v)) (set_iter (reduce_nbrs G (adj G u) (remdups (adj G u))))) TR)
               (add_nodes_from (nodes G) \<lparr>entries = []\<rparr>) (nodes G)"
    using assms by (simp add: transitive_reduction_def split: if_splits)
  show ?thesis
    unfolding R adj_fold_edges adj_add_nodes_from
    by (simp add: adj_def)
qed

lemma transitive_reduction_has_node:
  assumes "transitive_reduction set_iter G = Inr R" and "x \<in> set (nodes G)"
  shows "has_node R x"
proof -
  have R: "R = foldl (\<lambda>TR u. add_edges_from
                 (map (\<lambda>v. (u, v)) (set_iter (reduce_nbrs G (adj G u) (remdups (adj G u))))) TR)
               (add_nodes_from (nodes G) \<lparr>entries = []\<rparr>) (nodes G)"
    using assms by (simp add: transitive_reduction_def split: if_splits)
  show ?thesis
    unfolding R
    by (rule has_node_fold_edges_mono) (simp add: has_node_add_nodes_from assms)
qed

lemma transitive_reduction_subgraph:
  assumes "transitive_reduction set_iter G = Inr R"
    and "\<forall>xs. set (set_iter xs) = set xs"
    and "v \<in> set (adj R u)"
  shows "v \<in> set (adj G u) \<and> u \<in> set (nodes G)"
  using assms reduce_nbrs_subset [of G "adj G u" "remdups (adj G u)"]
  by (auto simp: transitive_reduction_adj split: if_splits)

lemma max_from_greatest:
  assumes "\<forall>x\<in>set xs. \<exists>d. f x = Inr d" and "f m = Inr km"
  shows "\<exists>m' d'. max_from f m km xs = Inr m' \<and> m' \<in> insert m (set xs) \<and> f m' = Inr d'
           \<and> km \<le> d' \<and> (\<forall>x\<in>set xs. \<exists>dx. f x = Inr dx \<and> dx \<le> d')"
  using assms
proof (induction xs arbitrary: m km)
  case Nil
  then show ?case by simp
next
  case (Cons x xs)
  from Cons.prems obtain kx where kx: "f x = Inr kx" by auto
  have rest: "\<forall>y\<in>set xs. \<exists>d. f y = Inr d" using Cons.prems by simp
  show ?case
  proof (cases "km < kx")
    case True
    from Cons.IH [OF rest kx] obtain m' d' where
      "max_from f x kx xs = Inr m'" "m' \<in> insert x (set xs)" "f m' = Inr d'" "kx \<le> d'"
      "\<forall>y\<in>set xs. \<exists>dx. f y = Inr dx \<and> dx \<le> d'" by blast
    then show ?thesis using True kx by auto
  next
    case False
    from Cons.IH [OF rest Cons.prems(2)] obtain m' d' where
      "max_from f m km xs = Inr m'" "m' \<in> insert m (set xs)" "f m' = Inr d'" "km \<le> d'"
      "\<forall>y\<in>set xs. \<exists>dx. f y = Inr dx \<and> dx \<le> d'" by blast
    then show ?thesis using False kx by auto
  qed
qed

lemma py_max_greatest:
  assumes "\<forall>x\<in>set xs. \<exists>d. f x = Inr d" and "xs \<noteq> []"
  shows "\<exists>m. py_max f xs = Inr (Some m) \<and> m \<in> set xs \<and> list_all (\<lambda>c. elapsed_le (f c) (f m)) xs"
proof -
  from assms obtain x xs' where xs: "xs = x # xs'" by (cases xs) auto
  from assms xs obtain kx where kx: "f x = Inr kx" by auto
  have rest: "\<forall>y\<in>set xs'. \<exists>d. f y = Inr d" using assms xs by simp
  from max_from_greatest [OF rest kx] obtain m' d' where
    m: "max_from f x kx xs' = Inr m'" "m' \<in> insert x (set xs')" "f m' = Inr d'" "kx \<le> d'"
    "\<forall>y\<in>set xs'. \<exists>dx. f y = Inr dx \<and> dx \<le> d'" by blast
  have "list_all (\<lambda>c. elapsed_le (f c) (f m')) xs"
    unfolding list_all_iff xs using m kx by (auto simp: elapsed_le_def)
  then show ?thesis using m kx xs by (auto simp: py_max_def)
qed

lemma walk_cached:
  fixes G :: "'a makegrind_digraph_scheme"
  assumes cache: "cached_reduced G = Some R"
    and sub: "\<forall>u v. v \<in> set (adj R u) \<longrightarrow> v \<in> set (adj G u) \<and> u \<in> set (nodes G)"
    and hn: "\<forall>x\<in>set (nodes G). has_node R x"
    and dag: "acyclic (set (edges G))"
    and closed: "closed_adjacency G"
    and keys: "\<forall>k\<in>set (nodes G). k \<noteq> []"
    and timed: "timed tz G"
  shows "s \<in> set (nodes G) \<Longrightarrow>
           \<exists>p. heaviest_path_from tz set_iter G s = Some (Inr (s # p))
             \<and> heaviest_steps (adj R) (node_elapsed tz G) (s # p)
             \<and> distinct (s # p)
             \<and> (\<forall>x\<in>set p. (s, x) \<in> {(u, v). v \<in> set (adj R u)}\<^sup>+)"
proof -
  let ?E = "{(u, v). v \<in> set (adj R u)}"
  have E_sub: "?E \<subseteq> set (edges G)"
    using sub by (auto simp: edges_def)
  have acyc: "acyclic ?E" by (rule acyclic_subset [OF dag E_sub])
  have "finite ?E" by (rule finite_subset [OF E_sub]) simp
  then have wf: "wf (?E\<inverse>)" using acyc by (rule finite_acyclic_wf_converse)
  have red: "reduced set_iter G = Inr (R, G)" using cache by (simp add: reduced_def)
  show "s \<in> set (nodes G) \<Longrightarrow> ?thesis"
    using wf
  proof (induction s rule: wf_induct_rule)
    case (less s)
    have s_ne: "s \<noteq> []" using keys less.prems by blast
    have succ: "successors R s = Inr (adj R s)"
      using hn less.prems by (auto simp: successors_def adj_def has_node_def)
    have in_G: "\<forall>c\<in>set (adj R s). c \<in> set (nodes G)"
      using sub closed less.prems
      by (auto simp: closed_adjacency_def list_all_iff has_node_nodes)
    have el: "\<forall>c\<in>set (adj R s). \<exists>d. node_elapsed tz G c = Inr d"
    proof
      fix c assume "c \<in> set (adj R s)"
      then have "c \<in> set (nodes G)" using in_G by blast
      then have "case node_elapsed tz G c of Inr d \<Rightarrow> True | Inl e \<Rightarrow> False"
        using timed by (simp add: timed_def list_all_iff)
      then show "\<exists>d. node_elapsed tz G c = Inr d"
        by (cases "node_elapsed tz G c") simp_all
    qed
    show ?case
    proof (cases "adj R s = []")
      case True
      then have "heaviest_child tz set_iter G s = Inr (None, G)"
        by (simp add: heaviest_child_def red succ py_max_def)
      then have "heaviest_path_from tz set_iter G s = Some (Inr [s])"
        using s_ne by (subst heaviest_path_from.simps) simp
      then show ?thesis using True by simp
    next
      case False
      from py_max_greatest [OF el False] obtain m where
        m: "py_max (node_elapsed tz G) (adj R s) = Inr (Some m)" "m \<in> set (adj R s)"
           "list_all (\<lambda>c. elapsed_le (node_elapsed tz G c) (node_elapsed tz G m)) (adj R s)"
        by blast
      have hc: "heaviest_child tz set_iter G s = Inr (Some m, G)"
        by (simp add: heaviest_child_def red succ m)
      have "(m, s) \<in> ?E\<inverse>" using m by simp
      moreover have "m \<in> set (nodes G)" using in_G m by blast
      ultimately obtain p where
        p: "heaviest_path_from tz set_iter G m = Some (Inr (m # p))"
           "heaviest_steps (adj R) (node_elapsed tz G) (m # p)"
           "distinct (m # p)"
           "\<forall>x\<in>set p. (m, x) \<in> ?E\<^sup>+"
        using less.IH by blast
      have path: "heaviest_path_from tz set_iter G s = Some (Inr (s # m # p))"
        using s_ne hc p(1) by (subst heaviest_path_from.simps) simp
      have sm: "(s, m) \<in> ?E" using m by simp
      have reach: "\<forall>x\<in>set (m # p). (s, x) \<in> ?E\<^sup>+"
        using sm p(4) by (auto intro: trancl_into_trancl2)
      have "s \<notin> set (m # p)"
        using reach acyc by (auto simp: acyclic_def)
      then show ?thesis using path m p reach by simp
    qed
  qed
qed

lemma dfs_visit_cong:
  "entries G' = entries G \<Longrightarrow> dfs_visit G' stack visited = dfs_visit G stack visited"
proof (induction G stack visited rule: dfs_visit.induct)
  case (1 G visited)
  then show ?case by simp
next
  case (2 G x stack visited)
  have "adj G' x = adj G x" using "2.prems" by (simp add: adj_def)
  then show ?case using 2 by simp
qed

lemma reduce_nbrs_cong:
  "entries G' = entries G \<Longrightarrow> reduce_nbrs G' vs nbrs = reduce_nbrs G vs nbrs"
proof (induction vs arbitrary: nbrs)
  case Nil
  then show ?case by simp
next
  case (Cons v vs)
  have "descendants G' v = descendants G v"
    using Cons.prems by (simp add: descendants_def dfs_visit_cong [of G' G] adj_def)
  then show ?case using Cons by simp
qed

lemma transitive_reduction_cong:
  "entries G' = entries G \<Longrightarrow> transitive_reduction set_iter G' = transitive_reduction set_iter G"
  by (simp add: transitive_reduction_def is_directed_acyclic_graph_def edges_def nodes_def adj_def
      reduce_nbrs_cong [of G' G])

lemma heaviest_child_fill:
  assumes "cached_reduced G = None" and "transitive_reduction set_iter G = Inr R"
  shows "heaviest_child tz set_iter G s = heaviest_child tz set_iter (G\<lparr>cached_reduced := Some R\<rparr>) s"
  using assms by (simp add: heaviest_child_def reduced_def)

lemma heaviest_path_from_fill:
  assumes "cached_reduced G = None" and "transitive_reduction set_iter G = Inr R"
  shows "heaviest_path_from tz set_iter G s = heaviest_path_from tz set_iter (G\<lparr>cached_reduced := Some R\<rparr>) s"
  by (subst heaviest_path_from.simps, subst (2) heaviest_path_from.simps)
     (simp add: heaviest_child_fill [OF assms])

lemma entry_state:
  assumes "entry G = Inr (a, G')"
  shows "entries G' = entries G \<and> cached_reduced G' = cached_reduced G
         \<and> node_attr_dict_factory G' = node_attr_dict_factory G"
  using assms
  by (auto simp: entry_def split: option.splits sum.splits prod.splits)

lemma walk_any_cache:
  fixes G :: "'a makegrind_digraph_scheme"
  assumes dag: "is_directed_acyclic_graph G"
    and closed: "closed_adjacency G"
    and keys: "\<forall>k\<in>set (nodes G). k \<noteq> []"
    and timed: "timed tz G"
    and iter: "\<forall>xs. set (set_iter xs) = set xs"
    and cache: "case cached_reduced G of None \<Rightarrow> True | Some R \<Rightarrow> transitive_reduction set_iter G = Inr R"
    and s: "s \<in> set (nodes G)"
  shows "\<exists>R p. transitive_reduction set_iter G = Inr R
           \<and> heaviest_path_from tz set_iter G s = Some (Inr (s # p))
           \<and> distinct (s # p)
           \<and> heaviest_steps (adj R) (node_elapsed tz G) (s # p)"
proof -
  obtain R where R: "transitive_reduction set_iter G = Inr R"
    using dag by (auto simp: transitive_reduction_def)
  let ?G = "G\<lparr>cached_reduced := Some R\<rparr>"
  have same: "heaviest_path_from tz set_iter G s = heaviest_path_from tz set_iter ?G s"
  proof (cases "cached_reduced G")
    case None
    then show ?thesis using R by (rule heaviest_path_from_fill)
  next
    case (Some R')
    then have "R' = R" using cache R by simp
    then have "?G = G" using Some by simp
    then show ?thesis by simp
  qed
  have sub: "\<forall>u v. v \<in> set (adj R u) \<longrightarrow> v \<in> set (adj ?G u) \<and> u \<in> set (nodes ?G)"
    using transitive_reduction_subgraph [OF R iter] by (simp add: adj_def nodes_def)
  have hn: "\<forall>x\<in>set (nodes ?G). has_node R x"
    using transitive_reduction_has_node [OF R] by (simp add: nodes_def)
  have dag': "acyclic (set (edges ?G))"
    using dag by (simp add: is_directed_acyclic_graph_def edges_def adj_def nodes_def)
  have closed': "closed_adjacency ?G"
    using closed by (simp add: closed_adjacency_def list_all_iff adj_def nodes_def has_node_def)
  have keys': "\<forall>k\<in>set (nodes ?G). k \<noteq> []" using keys by (simp add: nodes_def)
  have timed': "timed tz ?G"
    using timed by (simp add: timed_def nodes_def node_elapsed_def node_attrs_def)
  have s': "s \<in> set (nodes ?G)" using s by (simp add: nodes_def)
  have c: "cached_reduced ?G = Some R" by simp
  from walk_cached [OF c sub hn dag' closed' keys' timed' s', of set_iter]
  obtain p where p: "heaviest_path_from tz set_iter ?G s = Some (Inr (s # p))"
    "heaviest_steps (adj R) (node_elapsed tz ?G) (s # p)" "distinct (s # p)"
    by blast
  have "node_elapsed tz ?G = node_elapsed tz G"
    by (rule ext) (simp add: node_elapsed_def node_attrs_def)
  then show ?thesis using R same p by auto
qed

lemma example_dag: "is_directed_acyclic_graph example_targets"
  by code_simp

lemma example_closed: "closed_adjacency example_targets"
  by code_simp

lemma example_keys: "\<forall>k\<in>set (nodes example_targets). k \<noteq> []"
  by (simp add: example_targets_def nodes_def)

lemma example_timed: "timed utc example_targets"
  by code_simp

lemma example_entry: "case entry example_targets of
                              Inl e \<Rightarrow> False
                            | Inr (a, G') \<Rightarrow> nodekey (node_attr_dict_factory example_targets) a = Inr ''1:all''"
  by code_simp

section \<open>The node memo is transparent\<close>

lemma coherent_clear: "coherent tz (clear n)"
  by (simp add: coherent_def clear_def)

lemma coherent_setitem: "coherent tz (setitem n k v)"
  by (simp add: coherent_def setitem_def clear_def)

lemma start_coherent:
  "coherent tz n \<Longrightarrow> fst (start tz n) = timestamp_attr tz (attrib n) ''start''
     \<and> coherent tz (snd (start tz n)) \<and> attrib (snd (start tz n)) = attrib n"
  by (auto simp: start_def coherent_def split: option.splits sum.splits)

lemma end_coherent:
  "coherent tz n \<Longrightarrow> fst (end' tz n) = timestamp_attr tz (attrib n) ''end''
     \<and> coherent tz (snd (end' tz n)) \<and> attrib (snd (end' tz n)) = attrib n"
  by (auto simp: end'_def coherent_def split: option.splits sum.splits)

lemma recipe_coherent:
  "coherent tz n \<Longrightarrow> fst (recipe tz n) = timestamp_attr tz (attrib n) ''recipe''
     \<and> coherent tz (snd (recipe tz n)) \<and> attrib (snd (recipe tz n)) = attrib n"
  by (auto simp: recipe_def coherent_def split: option.splits sum.splits)

lemma coherent_set_elapsed:
  "coherent tz n \<Longrightarrow> elapsed_of tz (attrib n) = Inr d \<Longrightarrow> coherent tz (n\<lparr>cached_elapsed := Some d\<rparr>)"
  by (simp add: coherent_def cong: option.case_cong)

lemma coherent_set_elapsed_recipe:
  "coherent tz n \<Longrightarrow> elapsed_recipe_of tz (attrib n) = Inr d
     \<Longrightarrow> coherent tz (n\<lparr>cached_elapsed_recipe := Some d\<rparr>)"
  by (simp add: coherent_def cong: option.case_cong)

lemma elapsed_coherent:
  assumes "coherent tz n"
  shows "fst (elapsed tz n) = elapsed_of tz (attrib n)
     \<and> coherent tz (snd (elapsed tz n)) \<and> attrib (snd (elapsed tz n)) = attrib n"
proof (cases "cached_elapsed n")
  case (Some d)
  then show ?thesis using assms by (simp add: elapsed_def coherent_def)
next
  case None
  obtain re n1 where e: "end' tz n = (re, n1)" by (cases "end' tz n")
  from end_coherent [OF assms] e have e1: "timestamp_attr tz (attrib n) ''end'' = re"
    "coherent tz n1" "attrib n1 = attrib n" by simp_all
  obtain rs n2 where s: "start tz n1 = (rs, n2)" by (cases "start tz n1")
  from start_coherent [OF e1(2)] s e1(3) have s1: "timestamp_attr tz (attrib n) ''start'' = rs"
    "coherent tz n2" "attrib n2 = attrib n" by simp_all
  show ?thesis
  proof (cases re)
    case (Inl x)
    then show ?thesis using None e e1 by (simp add: elapsed_def elapsed_of_def)
  next
    case (Inr eo)
    show ?thesis
    proof (cases eo)
      case None': None
      have "elapsed_of tz (attrib n1) = Inr 0" using None' Inr e1 by (simp add: elapsed_of_def)
      from coherent_set_elapsed [OF e1(2) this] show ?thesis
        using None None' Inr e e1 by (simp add: elapsed_def elapsed_of_def)
    next
      case (Some et)
      show ?thesis
      proof (cases rs)
        case (Inl x)
        then show ?thesis using None Some Inr e e1 s s1 by (simp add: elapsed_def elapsed_of_def)
      next
        case rs: (Inr so)
        show ?thesis
        proof (cases so)
          case None'': None
          have "elapsed_of tz (attrib n2) = Inr 0"
            using None'' rs Some Inr e1 s1 by (simp add: elapsed_of_def)
          from coherent_set_elapsed [OF s1(2) this] show ?thesis
            using None None'' rs Some Inr e e1 s s1 by (simp add: elapsed_def elapsed_of_def)
        next
          case st: (Some st)
          have "elapsed_of tz (attrib n2) = Inr (et - st)"
            using st rs Some Inr e1 s1 by (simp add: elapsed_of_def)
          from coherent_set_elapsed [OF s1(2) this] show ?thesis
            using None st rs Some Inr e e1 s s1 by (simp add: elapsed_def elapsed_of_def)
        qed
      qed
    qed
  qed
qed

lemma elapsed_recipe_coherent:
  assumes "coherent tz n"
  shows "fst (elapsed_recipe tz n) = elapsed_recipe_of tz (attrib n)
     \<and> coherent tz (snd (elapsed_recipe tz n)) \<and> attrib (snd (elapsed_recipe tz n)) = attrib n"
proof (cases "cached_elapsed_recipe n")
  case (Some d)
  then show ?thesis using assms by (simp add: elapsed_recipe_def coherent_def)
next
  case None
  obtain re n1 where e: "end' tz n = (re, n1)" by (cases "end' tz n")
  from end_coherent [OF assms] e have e1: "timestamp_attr tz (attrib n) ''end'' = re"
    "coherent tz n1" "attrib n1 = attrib n" by simp_all
  obtain rs n2 where s: "recipe tz n1 = (rs, n2)" by (cases "recipe tz n1")
  from recipe_coherent [OF e1(2)] s e1(3) have s1: "timestamp_attr tz (attrib n) ''recipe'' = rs"
    "coherent tz n2" "attrib n2 = attrib n" by simp_all
  show ?thesis
  proof (cases re)
    case (Inl x)
    then show ?thesis using None e e1 by (simp add: elapsed_recipe_def elapsed_recipe_of_def)
  next
    case (Inr eo)
    show ?thesis
    proof (cases eo)
      case None': None
      have "elapsed_recipe_of tz (attrib n1) = Inr 0"
        using None' Inr e1 by (simp add: elapsed_recipe_of_def)
      from coherent_set_elapsed_recipe [OF e1(2) this] show ?thesis
        using None None' Inr e e1 by (simp add: elapsed_recipe_def elapsed_recipe_of_def)
    next
      case (Some et)
      show ?thesis
      proof (cases rs)
        case (Inl x)
        then show ?thesis
          using None Some Inr e e1 s s1 by (simp add: elapsed_recipe_def elapsed_recipe_of_def)
      next
        case rs: (Inr so)
        show ?thesis
        proof (cases so)
          case None'': None
          have "elapsed_recipe_of tz (attrib n2) = Inr 0"
            using None'' rs Some Inr e1 s1 by (simp add: elapsed_recipe_of_def)
          from coherent_set_elapsed_recipe [OF s1(2) this] show ?thesis
            using None None'' rs Some Inr e e1 s s1
            by (simp add: elapsed_recipe_def elapsed_recipe_of_def)
        next
          case st: (Some st)
          have "elapsed_recipe_of tz (attrib n2) = Inr (et - st)"
            using st rs Some Inr e1 s1 by (simp add: elapsed_recipe_of_def)
          from coherent_set_elapsed_recipe [OF s1(2) this] show ?thesis
            using None st rs Some Inr e e1 s s1
            by (simp add: elapsed_recipe_def elapsed_recipe_of_def)
        qed
      qed
    qed
  qed
qed

lemma info_elapsed_recipe_coherent:
  "coherent tz n \<Longrightarrow> fst (info_elapsed_recipe tz n) = info_elapsed_recipe_of tz (attrib n)"
  using elapsed_recipe_coherent [of tz n]
  by (cases "map_of (attrib n) ''recursive''")
     (simp_all add: info_elapsed_recipe_def info_elapsed_recipe_of_def getattr_def)

lemma setitem_then_read:
  "fst (start tz (setitem n k v)) = timestamp_attr tz (attrib (setitem n k v)) ''start''"
  "fst (end' tz (setitem n k v)) = timestamp_attr tz (attrib (setitem n k v)) ''end''"
  "fst (recipe tz (setitem n k v)) = timestamp_attr tz (attrib (setitem n k v)) ''recipe''"
  "fst (elapsed tz (setitem n k v)) = elapsed_of tz (attrib (setitem n k v))"
  "fst (elapsed_recipe tz (setitem n k v)) = elapsed_recipe_of tz (attrib (setitem n k v))"
  using start_coherent [OF coherent_setitem] end_coherent [OF coherent_setitem]
    recipe_coherent [OF coherent_setitem] elapsed_coherent [OF coherent_setitem]
    elapsed_recipe_coherent [OF coherent_setitem] by simp_all

section \<open>What add_target keeps of a target graph\<close>

lemma closed_adjacency_iff:
  "closed_adjacency G \<longleftrightarrow> (\<forall>u v. v \<in> set (adj G u) \<longrightarrow> has_node G v)"
proof
  assume c: "closed_adjacency G"
  show "\<forall>u v. v \<in> set (adj G u) \<longrightarrow> has_node G v"
  proof (intro allI impI)
    fix u v assume v: "v \<in> set (adj G u)"
    then have "u \<in> set (nodes G)" using adj_not_node [of u G] by (cases "u \<in> set (nodes G)") auto
    then show "has_node G v" using c v by (auto simp: closed_adjacency_def list_all_iff)
  qed
next
  assume "\<forall>u v. v \<in> set (adj G u) \<longrightarrow> has_node G v"
  then show "closed_adjacency G" by (auto simp: closed_adjacency_def list_all_iff)
qed

lemma closed_adjacency_add_edge: "closed_adjacency G \<Longrightarrow> closed_adjacency (add_edge u v G)"
  unfolding closed_adjacency_iff
  by (auto simp: adj_add_edge has_node_add_edge split: if_splits)

lemma closed_adjacency_add_node: "closed_adjacency G \<Longrightarrow> closed_adjacency (add_node k a G)"
  unfolding closed_adjacency_iff
  by (auto simp: adj_add_node has_node_add_node)

lemma closed_adjacency_update_node:
  "closed_adjacency G \<Longrightarrow> update_node k other G = Inr G' \<Longrightarrow> closed_adjacency G'"
  unfolding closed_adjacency_iff
  by (simp add: adj_update_node has_node_update_node)

lemma closed_adjacency_add_dep_edges:
  "closed_adjacency G \<Longrightarrow> closed_adjacency (add_dep_edges k deps G)"
  unfolding add_dep_edges_def
  by (induction deps arbitrary: G) (simp_all add: closed_adjacency_add_edge)

lemma closed_adjacency_add_target:
  assumes "closed_adjacency G" and "add_target target G = Inr G'"
  shows "closed_adjacency G'"
proof -
  from assms(2) obtain k where k: "nodekey (node_attr_dict_factory G) target = Inr k"
    by (cases "nodekey (node_attr_dict_factory G) target") (simp_all add: add_target_def)
  let ?t = "AList.delete ''depends'' target"
  let ?G1 = "if has_node G k then G else add_node k [] G"
  have c1: "closed_adjacency ?G1" using assms(1) by (simp add: closed_adjacency_add_node)
  from assms(2) k obtain G2 where G2: "update_node k ?t ?G1 = Inr G2"
    by (cases "update_node k ?t ?G1") (simp_all add: add_target_def Let_def)
  have c2: "closed_adjacency G2" by (rule closed_adjacency_update_node [OF c1 G2])
  have "G' = G2 \<or> (\<exists>deps. G' = add_dep_edges k deps G2)"
    using assms(2) k G2
    by (auto simp: add_target_def Let_def split: sum.splits list.splits)
  then show ?thesis using c2 closed_adjacency_add_dep_edges by auto
qed

lemma closed_adjacency_TargetDiGraph: "closed_adjacency TargetDiGraph"
  by (simp add: closed_adjacency_def TargetDiGraph_def graph_clear_def nodes_def)


lemma has_node_add_dep_edges_cases:
  "has_node (add_dep_edges k deps G) x \<Longrightarrow> has_node G x \<or> x = k \<or> x \<in> set deps"
  unfolding add_dep_edges_def
proof (induction deps arbitrary: G)
  case Nil
  then show ?case by simp
next
  case (Cons d deps)
  from Cons.IH [of "add_edge k d G"] Cons.prems
  have "has_node (add_edge k d G) x \<or> x = k \<or> x \<in> set deps" by simp
  then show ?case by (auto simp: has_node_add_edge)
qed

lemma target_key_not_empty: "nodekey TargetNode target = Inr k \<Longrightarrow> k \<noteq> []"
  by (auto split: sum.splits)

lemma keys_add_target:
  assumes kind: "node_attr_dict_factory G = TargetNode"
    and keys: "\<forall>x. has_node G x \<longrightarrow> x \<noteq> []"
    and ok: "add_target target G = Inr G'"
  shows "\<forall>x. has_node G' x \<longrightarrow> x \<noteq> []"
proof -
  from ok obtain k where k: "nodekey (node_attr_dict_factory G) target = Inr k"
    by (cases "nodekey (node_attr_dict_factory G) target") (simp_all add: add_target_def)
  have k_ne: "k \<noteq> []" using k kind target_key_not_empty by simp
  let ?t = "AList.delete ''depends'' target"
  let ?G1 = "if has_node G k then G else add_node k [] G"
  have k1: "\<forall>x. has_node ?G1 x \<longrightarrow> x \<noteq> []"
    using keys k_ne by (auto simp: has_node_add_node)
  from ok k obtain G2 where G2: "update_node k ?t ?G1 = Inr G2"
    by (cases "update_node k ?t ?G1") (simp_all add: add_target_def Let_def)
  have k2: "\<forall>x. has_node G2 x \<longrightarrow> x \<noteq> []"
    using k1 has_node_update_node [OF G2] by simp
  have "G' = G2 \<or> (\<exists>pid ds. G' = add_dep_edges k (map (dep_key pid) ds) G2)"
  proof (cases "py_iter (case map_of target ''depends'' of None \<Rightarrow> VList [] | Some d \<Rightarrow> d)")
    case (Inl e)
    then show ?thesis using ok k G2 by (simp add: add_target_def Let_def)
  next
    case (Inr ds)
    show ?thesis
    proof (cases ds)
      case Nil
      then show ?thesis using ok k G2 Inr by (simp add: add_target_def Let_def)
    next
      case (Cons d ds')
      then obtain pid where "G' = add_dep_edges k (map (dep_key pid) ds) G2"
        using ok k G2 Inr by (auto simp: add_target_def Let_def split: sum.splits)
      then show ?thesis by blast
    qed
  qed
  then show ?thesis
  proof
    assume "G' = G2"
    then show ?thesis using k2 by simp
  next
    assume "\<exists>pid ds. G' = add_dep_edges k (map (dep_key pid) ds) G2"
    then obtain pid ds where G': "G' = add_dep_edges k (map (dep_key pid) ds) G2" by blast
    show ?thesis
    proof (intro allI impI)
      fix x assume "has_node G' x"
      then have "has_node G2 x \<or> x = k \<or> x \<in> set (map (dep_key pid) ds)"
        unfolding G' by (rule has_node_add_dep_edges_cases)
      then show "x \<noteq> []" using k2 k_ne by (auto simp: dep_key_def)
    qed
  qed
qed

section \<open>Reading the entry point twice\<close>

lemma entry_again: "entry G = Inr (a, G') \<Longrightarrow> entry G' = Inr (a, G')"
  by (auto simp: entry_def node_attrs_def split: option.splits sum.splits prod.splits)

section \<open>Properties of ingestion, lookup and the report\<close>

lemma filter_nodes_no_name:
  "list_all (\<lambda>x. case map_of (snd x) ''name'' of Some v \<Rightarrow> v \<noteq> VStr t | None \<Rightarrow> False) xs
     \<Longrightarrow> filter_nodes (checker os G (Some t) None None) xs = Inr []"
proof (induction xs)
  case Nil
  then show ?case by simp
next
  case (Cons x xs)
  then obtain v where v: "map_of (snd x) ''name'' = Some v" "v \<noteq> VStr t"
    by (auto split: option.splits)
  then have "checker os G (Some t) None None (snd x) = Inr False"
    by (simp add: checker_def attr_of_def eq_str_def)
  then show ?case using Cons by simp
qed

lemma build_digraph_targets_update [simp]:
  fixes r :: build_digraph
  shows "entries (r\<lparr>targets := T\<rparr>) = entries r"
    and "node_attr_dict_factory (r\<lparr>targets := T\<rparr>) = node_attr_dict_factory r"
    and "cached_reduced (r\<lparr>targets := T\<rparr>) = cached_reduced r"
    and "cached_entry (r\<lparr>targets := T\<rparr>) = cached_entry r"
    and "targets (r\<lparr>entries := es\<rparr>) = targets r"
    and "targets (r\<lparr>cached_entry := k\<rparr>) = targets r"
    and "targets (r\<lparr>cached_reduced := c\<rparr>) = targets r"
  by (cases r; simp)+




lemma entries_add_node_empty:
  "entries (add_node k a (G\<lparr>entries := []\<rparr>)) = [(k, dict_update [] a, [])]"
  by (simp add: add_node_def touch_def has_node_def)











section \<open>The Info view of the recipe time\<close>

text \<open>
  C2.  A target whose \<open>recursive\<close> attribute is \<open>True\<close> reads, through the Info view, a
  recipe time of zero whatever the raw node holds, and the node is left as it was.  A
  target whose \<open>recursive\<close> attribute is anything else, or is missing, reads through the
  Info view exactly what the raw node's \<open>elapsed_recipe\<close> gives (value or exception, and
  the same memo afterwards).
\<close>

theorem info_elapsed_recipe_recursive:
  "(map_of (attrib n) ''recursive'' = Some (VBool True) \<longrightarrow> info_elapsed_recipe tz n = (Inr 0, n))
   \<and> (map_of (attrib n) ''recursive'' \<noteq> Some (VBool True)
        \<longrightarrow> info_elapsed_recipe tz n = elapsed_recipe tz n)"
  by (auto simp: info_elapsed_recipe_def getattr_def split: option.splits)

theorem info_elapsed_recipe_recursive_witness:
  "map_of (attrib (setitem (setitem (setitem new_node ''end'' (VNum 9)) ''recipe'' (VNum 4))
       ''recursive'' (VBool True))) ''recursive'' = Some (VBool True)
   \<and> fst (info_elapsed_recipe utc (setitem (setitem (setitem new_node ''end'' (VNum 9)) ''recipe'' (VNum 4))
       ''recursive'' (VBool True))) = Inr 0
   \<and> fst (elapsed_recipe utc (setitem (setitem (setitem new_node ''end'' (VNum 9)) ''recipe'' (VNum 4))
       ''recursive'' (VBool True))) = Inr 5000000
   \<and> map_of (attrib (setitem (setitem new_node ''end'' (VNum 9)) ''recipe'' (VNum 4))) ''recursive''
       \<noteq> Some (VBool True)
   \<and> fst (info_elapsed_recipe utc (setitem (setitem new_node ''end'' (VNum 9)) ''recipe'' (VNum 4)))
       = Inr 5000000"
  using info_elapsed_recipe_recursive
    [of "setitem (setitem (setitem new_node ''end'' (VNum 9)) ''recipe'' (VNum 4)) ''recursive'' (VBool True)" utc]
    info_elapsed_recipe_recursive
    [of "setitem (setitem new_node ''end'' (VNum 9)) ''recipe'' (VNum 4)" utc]
  by (simp add: setitem_def new_node_def clear_def elapsed_recipe_def end'_def recipe_def
      timestamp_attr_def utc_def)

section \<open>Dependencies that are never added\<close>

text \<open>
  C10.  \<open>add_target\<close> on a target with \<open>pid\<close>, \<open>name\<close> and a list of dependencies
  succeeds.  For every listed dependency name whose key \<open>pid:name\<close> is not yet a node
  of the graph (and is not the target's own key), the resulting graph has an edge from
  the target to that key, and the node of that key has an empty attribute dict, which is
  not a valid target node.
\<close>

theorem add_target_unresolved_dependency:
  assumes pid: "map_of target ''pid'' = Some pid"
    and name: "map_of target ''name'' = Some name"
    and deps: "map_of target ''depends'' = Some (VList ds)"
    and kind: "node_attr_dict_factory G = TargetNode"
    and d: "d \<in> set ds"
    and fresh: "\<not> has_node G (dep_key pid d)"
    and other: "dep_key pid d \<noteq> dep_key pid name"
  shows "\<exists>G'. add_target target G = Inr G'
           \<and> dep_key pid d \<in> set (adj G' (dep_key pid name))
           \<and> node_attrs G' (dep_key pid d) = Inr []
           \<and> \<not> valid TargetNode []"
proof -
  let ?k = "dep_key pid name"
  let ?t = "AList.delete ''depends'' target"
  let ?G1 = "if has_node G ?k then G else add_node ?k [] G"
  have key: "nodekey (node_attr_dict_factory G) target = Inr ?k"
    using pid name kind by (simp add: getitem_def dep_key_def)
  have h1: "has_node ?G1 ?k" by (simp add: has_node_add_node)
  then obtain G2 where G2: "update_node ?k ?t ?G1 = Inr G2"
    by (simp add: update_node_def)
  have pid': "getitem ?t ''pid'' = Inr pid"
    using pid by (simp add: getitem_def delete_conv')
  from d obtain d0 ds0 where ds: "ds = d0 # ds0" by (cases ds) auto
  have res: "add_target target G = Inr (add_dep_edges ?k (map (dep_key pid) ds) G2)"
    using key G2 pid' deps ds by (simp add: add_target_def Let_def)
  have fresh2: "\<not> has_node G2 (dep_key pid d)"
    using fresh other has_node_update_node [OF G2] by (simp add: has_node_add_node)
  let ?deps = "map (dep_key pid) ds"
  have mem: "dep_key pid d \<in> set ?deps" using d by simp
  have ne: "?deps \<noteq> []" using ds by simp
  have a: "dep_key pid d \<in> set (adj (add_dep_edges ?k ?deps G2) ?k)"
    unfolding adj_add_dep_edges using mem by blast
  have b: "node_attrs (add_dep_edges ?k ?deps G2) (dep_key pid d) = Inr []"
    unfolding node_attrs_add_dep_edges using fresh2 mem ne by simp
  have c: "\<not> valid TargetNode []" by (simp add: valid_def)
  show ?thesis using res a b c by blast
qed


theorem add_target_unresolved_dependency_witness:
  "\<exists>G'. add_target [(''name'', VStr ''all''), (''pid'', VNum 1), (''depends'', VList [VStr ''lib''])]
           TargetDiGraph = Inr G'
     \<and> ''1:lib'' \<in> set (adj G' ''1:all'')
     \<and> node_attrs G' ''1:lib'' = Inr []
     \<and> \<not> valid TargetNode []"
  using add_target_unresolved_dependency
    [of "[(''name'', VStr ''all''), (''pid'', VNum 1), (''depends'', VList [VStr ''lib''])]"
        "VNum 1" "VStr ''all''" "[VStr ''lib'']" TargetDiGraph "VStr ''lib''"]
  by (simp add: dep_key_def py_str_def str_int_def decimal_digit digit_def
      TargetDiGraph_def graph_clear_def has_node_def)

section \<open>The heaviest path\<close>

text \<open>
  As long as the reduction memo is empty or holds the transitive reduction of the graph
  as it is, the walk is the one expected.  Take an acyclic target graph whose keys are
  not empty and whose nodes have readable times, any conversion of timestamps, any order
  of iterating a set, and a start node of the graph: the start given, or the key of the
  entry point when none is given.  Then \<open>heaviest_path\<close> returns a finite list.  Its
  first element is the start, no key is repeated, every next element is a successor of
  the one before it in the transitive reduction and no successor of that one has a
  greater elapsed time, and the list ends at a node without successors in the reduction.
\<close>

lemma heaviest_path_with_current_memo:
  fixes G :: "'a makegrind_digraph_scheme"
  assumes dag: "is_directed_acyclic_graph G"
    and closed: "closed_adjacency G"
    and keys: "\<forall>k\<in>set (nodes G). k \<noteq> []"
    and timed: "timed tz G"
    and iter: "\<forall>xs. set (set_iter xs) = set xs"
    and cache: "case cached_reduced G of None \<Rightarrow> True | Some R \<Rightarrow> transitive_reduction set_iter G = Inr R"
    and start: "case start_arg of
                  Some s' \<Rightarrow> s' = s
                | None \<Rightarrow> (case entry G of
                              Inl e \<Rightarrow> False
                            | Inr (a, G') \<Rightarrow> nodekey (node_attr_dict_factory G) a = Inr s)"
    and s: "s \<in> set (nodes G)"
  shows "\<exists>R p. transitive_reduction set_iter G = Inr R
           \<and> heaviest_path tz set_iter G start_arg = Some (Inr (s # p))
           \<and> distinct (s # p)
           \<and> heaviest_steps (adj R) (node_elapsed tz G) (s # p)"
proof (cases start_arg)
  case (Some s')
  then have "heaviest_path tz set_iter G start_arg = heaviest_path_from tz set_iter G s"
    using start by (simp add: heaviest_path_def)
  then show ?thesis
    using walk_any_cache [OF dag closed keys timed iter cache s] by simp
next
  case None
  then obtain a G' where e: "entry G = Inr (a, G')"
    and k: "nodekey (node_attr_dict_factory G) a = Inr s"
    using start by (auto split: sum.splits)
  note st = entry_state [OF e]
  have hp: "heaviest_path tz set_iter G start_arg = heaviest_path_from tz set_iter G' s"
    using None e k st by (simp add: heaviest_path_def)
  have tr: "transitive_reduction set_iter G' = transitive_reduction set_iter G"
    using st by (simp add: transitive_reduction_cong [of G' G])
  have dag': "is_directed_acyclic_graph G'"
    using dag st by (simp add: is_directed_acyclic_graph_def edges_def adj_def nodes_def)
  have closed': "closed_adjacency G'"
    using closed st by (simp add: closed_adjacency_def list_all_iff adj_def nodes_def has_node_def)
  have keys': "\<forall>k\<in>set (nodes G'). k \<noteq> []" using keys st by (simp add: nodes_def)
  have timed': "timed tz G'"
    using timed st by (simp add: timed_def nodes_def node_elapsed_def node_attrs_def)
  have s': "s \<in> set (nodes G')" using s st by (simp add: nodes_def)
  have cache': "case cached_reduced G' of None \<Rightarrow> True
                | Some R \<Rightarrow> transitive_reduction set_iter G' = Inr R"
    using cache st tr by (simp split: option.splits)
  have "node_elapsed tz G' = node_elapsed tz G"
    using st by (intro ext) (simp add: node_elapsed_def node_attrs_def)
  then show ?thesis
    using walk_any_cache [OF dag' closed' keys' timed' iter cache' s'] hp tr by simp
qed

lemma heaviest_path_example:
  "is_directed_acyclic_graph example_targets \<and> closed_adjacency example_targets
   \<and> timed utc example_targets
   \<and> ''1:all'' \<in> set (nodes example_targets)
   \<and> (\<exists>R p. transitive_reduction (\<lambda>xs. xs) example_targets = Inr R
          \<and> heaviest_path utc (\<lambda>xs. xs) example_targets None = Some (Inr (''1:all'' # p))
          \<and> distinct (''1:all'' # p)
          \<and> heaviest_steps (adj R) (node_elapsed utc example_targets) (''1:all'' # p))"
proof -
  have s: "''1:all'' \<in> set (nodes example_targets)"
    by (simp add: example_targets_def nodes_def)
  have cache: "case cached_reduced example_targets of None \<Rightarrow> True
               | Some R \<Rightarrow> transitive_reduction (\<lambda>xs. xs) example_targets = Inr R"
    by (simp add: example_targets_def)
  have iter: "\<forall>xs :: key list. set ((\<lambda>xs. xs) xs) = set xs" by simp
  have start: "case None of
                  Some s' \<Rightarrow> s' = ''1:all''
                | None \<Rightarrow> (case entry example_targets of
                              Inl e \<Rightarrow> False
                            | Inr (a, G') \<Rightarrow>
                                nodekey (node_attr_dict_factory example_targets) a = Inr ''1:all'')"
    using example_entry by simp
  show ?thesis
    using heaviest_path_with_current_memo
      [OF example_dag example_closed example_keys example_timed iter cache start s]
      example_dag example_closed example_timed s
    by blast
qed

text \<open>
  C1.  The memo is not kept current, so the walk can leave the reduced graph.  The
  target \<open>a\<close> of process 1 depends on \<open>b\<close>; the heaviest path from \<open>1:a\<close> is read, which
  is \<open>1:a\<close>, \<open>1:b\<close> and memoises the reduction (the graph it leaves is the one a read
  of \<open>reduced\<close> leaves); then the target \<open>b\<close> arrives, which depends on \<open>c\<close>.  The graph is acyclic and its transitive reduction has the edge from
  \<open>1:b\<close> to \<open>1:c\<close>, but the heaviest path from \<open>1:a\<close> is still \<open>1:a\<close>, \<open>1:b\<close>: it ends
  at a node that has a successor in the reduced graph.  Once \<open>clear\<close> has been called the
  path is \<open>1:a\<close>, \<open>1:b\<close>, \<open>1:c\<close>.
\<close>

theorem heaviest_path_stops_before_new_edge:
  "(case add_target [(''name'', VStr ''a''), (''pid'', VNum 1), (''start'', VNum 0), (''end'', VNum 9),
                     (''depends'', VList [VStr ''b''])] TargetDiGraph of
      Inl e \<Rightarrow> False
    | Inr G1 \<Rightarrow>
        heaviest_path utc (\<lambda>xs. xs) G1 (Some ''1:a'') = Some (Inr [''1:a'', ''1:b''])
        \<and> (case reduced (\<lambda>xs. xs) G1 of
              Inl e \<Rightarrow> False
            | Inr (R1, G2) \<Rightarrow>
                (case add_target [(''name'', VStr ''b''), (''pid'', VNum 1), (''start'', VNum 0),
                                  (''end'', VNum 5), (''depends'', VList [VStr ''c''])] G2 of
                   Inl e \<Rightarrow> False
                 | Inr G3 \<Rightarrow>
                     is_directed_acyclic_graph G3
                     \<and> edges G3 = [(''1:a'', ''1:b''), (''1:b'', ''1:c'')]
                     \<and> (case transitive_reduction (\<lambda>xs. xs) G3 of
                           Inl e \<Rightarrow> False
                         | Inr R3 \<Rightarrow> adj R3 ''1:b'' = [''1:c''])
                     \<and> heaviest_path utc (\<lambda>xs. xs) G3 (Some ''1:a'') = Some (Inr [''1:a'', ''1:b''])
                     \<and> heaviest_path utc (\<lambda>xs. xs) (graph_clear G3) (Some ''1:a'')
                           = Some (Inr [''1:a'', ''1:b'', ''1:c'']))))"
  by code_simp

section \<open>The entry point of a graph without a valid node\<close>

text \<open>
  C6.  Reading the entry point of the empty target graph, and of a target graph whose
  two nodes have no attributes at all, raises \<open>NameError\<close> for the name
  \<open>mg_exceptions\<close>: the \<open>raise\<close> statement that was to report "Unable to find entry
  point" never builds its exception.
\<close>

theorem entry_without_valid_node:
  "entry TargetDiGraph = Inl (NameError ''mg_exceptions'')
   \<and> entry (add_edge ''1:all'' ''1:lib'' TargetDiGraph) = Inl (NameError ''mg_exceptions'')"
  by code_simp

section \<open>The graph memo after a mutation\<close>

text \<open>
  C4.  A write to a node clears its memo (lemma \<open>setitem_then_read\<close>), but nothing
  clears the memo of a graph.  After \<open>reduced\<close> has been read on the graph with the one
  edge \<open>1:a \<rightarrow> 1:b\<close>, adding the edge \<open>1:b \<rightarrow> 1:c\<close> leaves the memo in place: the next
  read of \<open>reduced\<close> returns the old reduction, in which \<open>1:b\<close> has no successor, and not
  the reduction of the graph as it is now.  In the same way, after \<open>entry\<close> has been read
  on a graph with the one target \<open>lib\<close>, adding the target \<open>all\<close> that depends on \<open>lib\<close>
  leaves \<open>entry\<close> at \<open>lib\<close>, although \<open>all\<close> is now first in topological order and is
  what \<open>entry\<close> returns once \<open>clear\<close> has been called.
\<close>

theorem graph_memo_survives_mutation:
  "(case reduced (\<lambda>xs. xs) (add_edge ''1:a'' ''1:b'' TargetDiGraph) of
      Inl e \<Rightarrow> False
    | Inr (R, G1) \<Rightarrow>
        (case reduced (\<lambda>xs. xs) (add_edge ''1:b'' ''1:c'' G1) of
           Inl e \<Rightarrow> False
         | Inr (R', G2) \<Rightarrow>
             R' = R \<and> ''1:c'' \<in> set (adj G2 ''1:b'') \<and> ''1:c'' \<notin> set (adj R' ''1:b'')
             \<and> transitive_reduction (\<lambda>xs. xs) G2 \<noteq> Inr R'))
   \<and> (case add_target [(''name'', VStr ''lib''), (''pid'', VNum 1)] TargetDiGraph of
        Inl e \<Rightarrow> False
      | Inr G1 \<Rightarrow>
          (case entry G1 of
             Inl e \<Rightarrow> False
           | Inr (a1, G2) \<Rightarrow>
               (case add_target [(''name'', VStr ''all''), (''pid'', VNum 1),
                                 (''depends'', VList [VStr ''lib''])] G2 of
                  Inl e \<Rightarrow> False
                | Inr G3 \<Rightarrow>
                    fst (topological_sort G3) = [''1:all'', ''1:lib'']
                    \<and> (case entry G3 of
                          Inl e \<Rightarrow> False
                        | Inr (a3, G4) \<Rightarrow> a3 = a1 \<and> a3 = [(''name'', VStr ''lib''), (''pid'', VNum 1)])
                    \<and> (case entry (graph_clear G3) of
                          Inl e \<Rightarrow> False
                        | Inr (a3, G4) \<Rightarrow> a3 = [(''name'', VStr ''all''), (''pid'', VNum 1)]))))"
  by code_simp

section \<open>Waypoints\<close>

text \<open>
  C3.  In the example build there are two simple paths from \<open>1:a\<close> to \<open>1:c\<close>, with
  either enumeration.  \<open>find_path\<close> with the waypoints \<open>1:a\<close>, \<open>1:c\<close> selects the first
  hop from the entry target to \<open>1:a\<close> and then raises \<open>TypeError\<close> on the second path
  between the two waypoints; with the single waypoint \<open>1:a\<close> it returns the stitched
  path.
\<close>

theorem find_path_between_waypoints_raises:
  "from_build (VDict example_process) = Inr example_graph
   \<and> all_simple_paths Node_paths (\<lambda>xs. xs) (targets example_graph) ''1:a'' ''1:c''
       = Inr [[''1:a'', ''1:b'', ''1:c''], [''1:a'', ''1:c'']]
   \<and> all_simple_paths Edge_paths (\<lambda>xs. xs) (targets example_graph) ''1:a'' ''1:c''
       = Inr [[''1:a'', ''1:b'', ''1:c''], [''1:a'', ''1:c'']]
   \<and> find_path Node_paths utc (\<lambda>xs. xs) example_graph [''1:a'', ''1:c''] = Some (Inl TypeError)
   \<and> find_path Edge_paths utc (\<lambda>xs. xs) example_graph [''1:a'', ''1:c''] = Some (Inl TypeError)
   \<and> find_path Node_paths utc (\<lambda>xs. xs) example_graph [''1:a'']
       = Some (Inr [''1:all'', ''1:a'', ''1:b'', ''1:c''])
   \<and> find_path Edge_paths utc (\<lambda>xs. xs) example_graph [''1:a'']
       = Some (Inr [''1:all'', ''1:a'', ''1:b'', ''1:c''])"
  by code_simp

section \<open>Nested and flat ingestion\<close>




section \<open>The order of find_target\<close>

text \<open>
  C7.  Looking up the targets of process 1 in the example build returns all four keys
  with the smallest elapsed time first: 3, 5, 9 and 20 seconds.
\<close>

theorem find_target_smallest_first:
  "find_target utc example_os example_graph None None (Some 1) = Inr [''1:c'', ''1:a'', ''1:b'', ''1:all'']
   \<and> map (node_elapsed utc (targets example_graph)) [''1:c'', ''1:a'', ''1:b'', ''1:all'']
       = [Inr 3000000, Inr 5000000, Inr 9000000, Inr 20000000]"
  by code_simp

section \<open>The errors of find_target\<close>

text \<open>
  C8, as stated, fails: in the example build a lookup without any filter and a lookup
  by a name that no target has raise the same class of exception.
\<close>

theorem find_target_no_filter_same_class:
  "raised (find_target utc example_os example_graph None None None) = Some ''TargetNotFoundError''
   \<and> raised (find_target utc example_os example_graph (Some ''missing'') None None)
       = Some ''TargetNotFoundError''"
  by code_simp

text \<open>
  C8, amended.  A lookup without any filter raises \<open>TargetNotFoundError\<close> with the
  message "No filtering criteria".  A lookup by a name alone, on a graph in which every
  target has a name and none has this one, raises the same \<open>TargetNotFoundError\<close> with
  the message "No targets named '...'": the two differ in their message only.
\<close>

theorem find_target_errors_share_class:
  assumes "list_all (\<lambda>x. case map_of (snd x) ''name'' of Some v \<Rightarrow> v \<noteq> VStr t | None \<Rightarrow> False)
             (node_data (targets G))"
  shows "find_target tz os G None None None = Inl (TargetNotFoundError ''No filtering criteria'')
       \<and> find_target tz os G (Some t) None None
           = Inl (TargetNotFoundError (''No targets named '' @ [CHR 0x27] @ t @ [CHR 0x27]))"
  using filter_nodes_no_name [OF assms, of os G]
  by (simp add: find_target_def py_sorted_def not_found_message_def)

theorem find_target_errors_share_class_witness:
  "find_target utc example_os example_graph None None None
     = Inl (TargetNotFoundError ''No filtering criteria'')
   \<and> find_target utc example_os example_graph (Some ''missing'') None None
       = Inl (TargetNotFoundError (''No targets named '' @ [CHR 0x27] @ ''missing'' @ [CHR 0x27]))"
proof -
  have h: "list_all (\<lambda>x. case map_of (snd x) ''name'' of Some v \<Rightarrow> v \<noteq> VStr ''missing'' | None \<Rightarrow> False)
             (node_data (targets example_graph))"
    by code_simp
  show ?thesis
    using find_target_errors_share_class [OF h, of utc example_os] by simp
qed

section \<open>The TopRecipes report\<close>




end
